theory Spec2Isabelle
  imports Main "HOL-Library.Log_Nat" "HOL-Library.Sublist"
begin

section \<open>Python values used by intibot.py\<close>

subsection \<open>Exceptions\<close>

text \<open>
  The exceptions that the modelled code can meet. \<open>ExternalError\<close> stands for any
  exception derived from \<open>Exception\<close> that an external collaborator (the Reddit
  client, the device-control client) raises. \<open>CancelledError\<close> is what an
  \<open>await\<close> raises when the task is cancelled (the operator's interrupt under
  \<open>asyncio.run\<close>); it derives from \<open>BaseException\<close> only, so
  \<open>except Exception\<close> does not catch it.
\<close>

datatype exn =
    ZeroDivisionError
  | OverflowError
  | JSONDecodeError
  | AttributeError
  | ExternalError
  | CancelledError

definition is_Exception :: "exn \<Rightarrow> bool" where
  "is_Exception e = (e \<noteq> CancelledError)"

subsection \<open>Floats: IEEE 754 binary64 with round-to-nearest, ties-to-even\<close>

text \<open>
  A Python \<open>float\<close> is a binary64 number. A finite one is the rational it denotes
  (the sign of a zero is not kept: \<open>-0.0 == 0.0\<close> in Python); the others are the two
  infinities and NaN. Every arithmetic operation computes the exact rational result and
  rounds it to the nearest binary64 number, a tie going to the even significand.
\<close>

datatype pyfloat = Fin rat | PInf | NInf | NaN

text \<open>\<open>ilog2 x\<close> is \<open>\<lfloor>log\<^sub>2 x\<rfloor>\<close> for a positive rational \<open>x\<close>.\<close>

definition ilog2 :: "rat \<Rightarrow> int" where
  "ilog2 x = (if 1 \<le> x then bitlen \<lfloor>x\<rfloor> - 1 else - bitlen (\<lceil>1 / x\<rceil> - 1))"

definition round_half_even :: "rat \<Rightarrow> int" where
  "round_half_even t =
     (let f = \<lfloor>t\<rfloor>; d = t - of_int f
      in if d < 1 / 2 then f else if 1 / 2 < d then f + 1 else if even f then f else f + 1)"

text \<open>
  The spacing of the binary64 numbers around \<open>x\<close>: 53 significant bits for a normal
  number, and the fixed spacing \<open>2\<^sup>-\<^sup>1\<^sup>0\<^sup>7\<^sup>4\<close> in the subnormal range.
\<close>

definition quantum :: "rat \<Rightarrow> rat" where
  "quantum x = 2 powi (max (ilog2 \<bar>x\<bar> - 52) (- 1074))"

definition round64 :: "rat \<Rightarrow> rat" where
  "round64 x = (if x = 0 then 0 else of_int (round_half_even (x / quantum x)) * quantum x)"

text \<open>A rounded result of magnitude \<open>2\<^sup>1\<^sup>0\<^sup>2\<^sup>4\<close> or more overflows to an infinity.\<close>

definition fl :: "rat \<Rightarrow> pyfloat" where
  "fl x =
     (let r = round64 x
      in if 2 ^ 1024 \<le> r then PInf else if r \<le> - (2 ^ 1024) then NInf else Fin r)"

fun fneg :: "pyfloat \<Rightarrow> pyfloat" where
  "fneg (Fin a) = Fin (- a)"
| "fneg PInf = NInf"
| "fneg NInf = PInf"
| "fneg NaN = NaN"

fun fadd :: "pyfloat \<Rightarrow> pyfloat \<Rightarrow> pyfloat" where
  "fadd (Fin a) (Fin b) = fl (a + b)"
| "fadd NaN _ = NaN"
| "fadd _ NaN = NaN"
| "fadd PInf NInf = NaN"
| "fadd NInf PInf = NaN"
| "fadd PInf _ = PInf"
| "fadd NInf _ = NInf"
| "fadd _ PInf = PInf"
| "fadd _ NInf = NInf"

definition fsub :: "pyfloat \<Rightarrow> pyfloat \<Rightarrow> pyfloat" where
  "fsub a b = fadd a (fneg b)"

text \<open>An infinity times a finite number: NaN for zero, else the infinity of the product's sign.\<close>

definition inf_times :: "bool \<Rightarrow> rat \<Rightarrow> pyfloat" where
  "inf_times positive b =
     (if b = 0 then NaN else if (0 < b) = positive then PInf else NInf)"

fun fmul :: "pyfloat \<Rightarrow> pyfloat \<Rightarrow> pyfloat" where
  "fmul (Fin a) (Fin b) = fl (a * b)"
| "fmul NaN _ = NaN"
| "fmul _ NaN = NaN"
| "fmul PInf (Fin b) = inf_times True b"
| "fmul NInf (Fin b) = inf_times False b"
| "fmul (Fin a) PInf = inf_times True a"
| "fmul (Fin a) NInf = inf_times False a"
| "fmul PInf PInf = PInf"
| "fmul NInf NInf = PInf"
| "fmul PInf NInf = NInf"
| "fmul NInf PInf = NInf"

text \<open>Python's \<open>a < b\<close> on floats: false whenever an operand is NaN.\<close>

fun flt :: "pyfloat \<Rightarrow> pyfloat \<Rightarrow> bool" where
  "flt (Fin a) (Fin b) = (a < b)"
| "flt NaN _ = False"
| "flt _ NaN = False"
| "flt NInf NInf = False"
| "flt NInf _ = True"
| "flt _ NInf = False"
| "flt PInf _ = False"
| "flt _ PInf = True"

text \<open>
  The builtin \<open>min(a, b)\<close> keeps its first argument unless the second is strictly
  smaller.
\<close>

definition py_min :: "pyfloat \<Rightarrow> pyfloat \<Rightarrow> pyfloat" where
  "py_min a b = (if flt b a then b else a)"

text \<open>
  True division \<open>a / b\<close> of two Python ints: the exact quotient, correctly rounded;
  \<open>ZeroDivisionError\<close> for a zero divisor and \<open>OverflowError\<close> when the quotient is
  too large for a float.
\<close>

definition int_truediv :: "int \<Rightarrow> int \<Rightarrow> exn + pyfloat" where
  "int_truediv a b =
     (if b = 0 then Inl ZeroDivisionError
      else case fl (of_int a / of_int b) of
             Fin r \<Rightarrow> Inr (Fin r)
           | _ \<Rightarrow> Inl OverflowError)"

text \<open>A float literal of the source denotes the binary64 number nearest to it.\<close>

definition lit :: "rat \<Rightarrow> pyfloat" where
  "lit x = fl x"

section \<open>Effective settings\<close>

text \<open>
  The module-level names \<open>POST_ID\<close>, \<open>MIN_INTENSITY\<close>, \<open>MAX_UPVOTES\<close>,
  \<open>KEYWORD_LIST\<close> and \<open>KEYWORD_INTENSITY_MULTIPLIER\<close>, at the types the argument
  parser and the built-in defaults give them.
\<close>

record settings =
  POST_ID :: string
  MIN_INTENSITY :: pyfloat
  MAX_UPVOTES :: int
  KEYWORD_LIST :: "string list"
  KEYWORD_INTENSITY_MULTIPLIER :: pyfloat

section \<open>Intensity calculation\<close>

text \<open>
  \<^verbatim>\<open>
  def calculate_intensity(post_score, multiplier=1.0):
      scaled = post_score / MAX_UPVOTES
      base_intensity = MIN_INTENSITY + (1.0 - MIN_INTENSITY) * scaled
      return min(base_intensity * multiplier, 1.0)
  \<close>
\<close>

definition calculate_intensity :: "settings \<Rightarrow> int \<Rightarrow> pyfloat \<Rightarrow> exn + pyfloat" where
  "calculate_intensity st post_score multiplier =
     (case int_truediv post_score (MAX_UPVOTES st) of
        Inl e \<Rightarrow> Inl e
      | Inr scaled \<Rightarrow>
          (let base_intensity =
                 fadd (MIN_INTENSITY st) (fmul (fsub (Fin 1) (MIN_INTENSITY st)) scaled)
           in Inr (py_min (fmul base_intensity multiplier) (Fin 1))))"


section \<open>Keyword classification\<close>

text \<open>
  A Python \<open>str\<close> is modelled by the list of the bytes of its UTF-8 encoding. The
  ASCII characters are the bytes below 128, one byte each; every other character is a
  lead byte and one to three continuation bytes, all of them 128 or more. Searching a
  substring and splitting at a comma give the same result on the bytes as on the
  characters.
\<close>

definition is_ascii :: "char \<Rightarrow> bool" where
  "is_ascii c = (\<not> digit7 c)"

definition is_continuation :: "char \<Rightarrow> bool" where
  "is_continuation c = (digit7 c \<and> \<not> digit6 c)"

text \<open>\<open>s[:n]\<close>: the first \<open>n\<close> characters, each with its continuation bytes.\<close>

fun take_chars :: "nat \<Rightarrow> string \<Rightarrow> string" where
  "take_chars n [] = []"
| "take_chars n (c # cs) =
     (if is_continuation c then c # take_chars n cs
      else (case n of 0 \<Rightarrow> [] | Suc m \<Rightarrow> c # take_chars m cs))"

text \<open>
  \<open>str.lower()\<close>. It lowercases the string character by character. An ASCII
  character becomes the lowercase letter when it is one of \<open>A\<close> to \<open>Z\<close> and stays
  as it is otherwise, whatever stands around it. What a character outside ASCII becomes
  is decided by the Unicode tables of the Python runtime, for some characters in view
  of the characters before and after; the result may have another length. These tables
  are not part of the program: they are the parameter \<open>ul\<close>, which gives for a byte
  outside ASCII, with the bytes before it and after it, the bytes put in its place.
\<close>

definition lower_char :: "char \<Rightarrow> char" where
  "lower_char c =
     (case map_of (zip ''ABCDEFGHIJKLMNOPQRSTUVWXYZ'' ''abcdefghijklmnopqrstuvwxyz'') c of
        Some l \<Rightarrow> l
      | None \<Rightarrow> c)"

type_synonym unicode_lower = "string \<Rightarrow> char \<Rightarrow> string \<Rightarrow> string"

fun lower_from :: "unicode_lower \<Rightarrow> string \<Rightarrow> string \<Rightarrow> string" where
  "lower_from ul before [] = []"
| "lower_from ul before (c # after) =
     (if is_ascii c then [lower_char c] else ul before c after)
     @ lower_from ul (before @ [c]) after"

definition lower :: "unicode_lower \<Rightarrow> string \<Rightarrow> string" where
  "lower ul s = lower_from ul [] s"

text \<open>\<open>keyword in comment_text\<close> on strings: \<open>keyword\<close> occurs as a contiguous substring.\<close>

definition py_in :: "string \<Rightarrow> string \<Rightarrow> bool" where
  "py_in keyword text = sublist keyword text"

text \<open>
  Lines 151 to 156 of \<open>main\<close>:
  \<^verbatim>\<open>
  comment_text = comment.body.lower()
  if any(keyword in comment_text for keyword in KEYWORD_LIST):
      multiplier = KEYWORD_INTENSITY_MULTIPLIER
  else:
      multiplier = 1.0
  \<close>
\<close>

definition keyword_detected :: "unicode_lower \<Rightarrow> settings \<Rightarrow> string \<Rightarrow> bool" where
  "keyword_detected ul st body =
     (let comment_text = lower ul body
      in list_ex (\<lambda>keyword. py_in keyword comment_text) (KEYWORD_LIST st))"

definition select_multiplier :: "unicode_lower \<Rightarrow> settings \<Rightarrow> string \<Rightarrow> pyfloat" where
  "select_multiplier ul st body =
     (if keyword_detected ul st body then KEYWORD_INTENSITY_MULTIPLIER st else Fin 1)"

text \<open>
  Letter case, in the words of the specification: \<open>w\<close> is the trigger \<open>k\<close> in some
  letter case. The trigger is made of ASCII characters, none of them an upper-case
  letter, and \<open>w\<close> has at each place the character of \<open>k\<close> or, for a letter, its
  upper-case form.
\<close>

definition ascii_case_variant :: "string \<Rightarrow> string \<Rightarrow> bool" where
  "ascii_case_variant w k =
     list_all2
       (\<lambda>a b. is_ascii b \<and> b \<notin> set ''ABCDEFGHIJKLMNOPQRSTUVWXYZ'' \<and>
              (a = b \<or>
               (a, b) \<in> set (zip ''ABCDEFGHIJKLMNOPQRSTUVWXYZ'' ''abcdefghijklmnopqrstuvwxyz'')))
       w k"

text \<open>\<open>str.split(",")\<close>: the pieces between the commas, empty pieces included.\<close>

fun split_comma :: "string \<Rightarrow> string list" where
  "split_comma [] = [[]]"
| "split_comma (c # cs) =
     (if c = CHR '','' then [] # split_comma cs
      else (case split_comma cs of
              [] \<Rightarrow> [[c]]
            | w # ws \<Rightarrow> (c # w) # ws))"

text \<open>Line 158 of \<open>main\<close>: \<open>post_score = submission.score or 1\<close>. An int is falsy only when zero.\<close>

definition or_1 :: "int \<Rightarrow> int" where
  "or_1 score = (if score \<noteq> 0 then score else 1)"

section \<open>Settings cache and settings resolution\<close>

text \<open>What \<open>json.load\<close> returns and \<open>json.dump\<close> accepts. A dict keeps its entries in
  order, with distinct keys.\<close>

datatype json =
    JNull
  | JBool bool
  | JInt int
  | JFloat pyfloat
  | JStr string
  | JArr "json list"
  | JObj "(string \<times> json) list"

text \<open>
  The state of the file \<open>settings_cache.json\<close>: absent, present with content that
  \<open>json.load\<close> rejects, or present with a JSON document.
\<close>

datatype cache_file = Missing | Unparsable | Document json

text \<open>
  \<^verbatim>\<open>
  def load_cached_settings():
      if os.path.exists(CACHE_FILE):
          with open(CACHE_FILE, 'r') as f:
              return json.load(f)
      return {}
  \<close>
\<close>

fun load_cached_settings :: "cache_file \<Rightarrow> exn + json" where
  "load_cached_settings Missing = Inr (JObj [])"
| "load_cached_settings Unparsable = Inl JSONDecodeError"
| "load_cached_settings (Document j) = Inr j"

text \<open>\<open>cached.get(key, dflt)\<close>: only a dict has the method.\<close>

fun dict_get :: "json \<Rightarrow> string \<Rightarrow> json \<Rightarrow> exn + json" where
  "dict_get (JObj kvs) key dflt =
     Inr (case map_of kvs key of None \<Rightarrow> dflt | Some v \<Rightarrow> v)"
| "dict_get _ key dflt = Inl AttributeError"

text \<open>The parsed command line (\<open>args\<close>); an option that was not given is \<open>None\<close>.\<close>

record args =
  arg_id :: "string option"
  arg_minimum :: "pyfloat option"
  arg_max_upvotes :: "int option"
  arg_reset :: bool
  arg_keywords :: "string option"
  arg_multiplier :: "pyfloat option"

text \<open>The five module-level names after resolution, as the Python values they hold.\<close>

record resolved =
  r_POST_ID :: json
  r_MIN_INTENSITY :: json
  r_MAX_UPVOTES :: json
  r_KEYWORD_LIST :: json
  r_KEYWORD_INTENSITY_MULTIPLIER :: json

definition default_keywords :: "string list" where
  "default_keywords = [''knot'', ''puppy'', ''gock'', ''stupid'', ''choke'']"

text \<open>
  Lines 64 to 68. \<open>args.id or ...\<close> and \<open>... if args.keywords else ...\<close> test
  truthiness, so an empty string counts as not given; the other three test
  \<open>is not None\<close>. \<open>cached.get\<close> is evaluated only where the override is not used.
\<close>

definition resolve_POST_ID :: "args \<Rightarrow> json \<Rightarrow> exn + json" where
  "resolve_POST_ID a cached =
     (case arg_id a of
        Some s \<Rightarrow> if s \<noteq> [] then Inr (JStr s) else dict_get cached ''post_id'' (JStr ''gxvdih'')
      | None \<Rightarrow> dict_get cached ''post_id'' (JStr ''gxvdih''))"

definition resolve_MIN_INTENSITY :: "args \<Rightarrow> json \<Rightarrow> exn + json" where
  "resolve_MIN_INTENSITY a cached =
     (case arg_minimum a of
        Some x \<Rightarrow> Inr (JFloat x)
      | None \<Rightarrow> dict_get cached ''min_intensity'' (JFloat (lit (2 / 10))))"

definition resolve_MAX_UPVOTES :: "args \<Rightarrow> json \<Rightarrow> exn + json" where
  "resolve_MAX_UPVOTES a cached =
     (case arg_max_upvotes a of
        Some n \<Rightarrow> Inr (JInt n)
      | None \<Rightarrow> dict_get cached ''max_upvotes'' (JInt 100))"

definition resolve_KEYWORD_LIST :: "args \<Rightarrow> json \<Rightarrow> exn + json" where
  "resolve_KEYWORD_LIST a cached =
     (case arg_keywords a of
        Some s \<Rightarrow>
          if s \<noteq> [] then Inr (JArr (map JStr (split_comma s)))
          else dict_get cached ''keywords'' (JArr (map JStr default_keywords))
      | None \<Rightarrow> dict_get cached ''keywords'' (JArr (map JStr default_keywords)))"

definition resolve_MULTIPLIER :: "args \<Rightarrow> json \<Rightarrow> exn + json" where
  "resolve_MULTIPLIER a cached =
     (case arg_multiplier a of
        Some x \<Rightarrow> Inr (JFloat x)
      | None \<Rightarrow> dict_get cached ''multiplier'' (JFloat (lit (15 / 10))))"

definition resolve :: "args \<Rightarrow> json \<Rightarrow> exn + resolved" where
  "resolve a cached =
     (case resolve_POST_ID a cached of Inl e \<Rightarrow> Inl e | Inr p \<Rightarrow>
      case resolve_MIN_INTENSITY a cached of Inl e \<Rightarrow> Inl e | Inr mn \<Rightarrow>
      case resolve_MAX_UPVOTES a cached of Inl e \<Rightarrow> Inl e | Inr mx \<Rightarrow>
      case resolve_KEYWORD_LIST a cached of Inl e \<Rightarrow> Inl e | Inr ks \<Rightarrow>
      case resolve_MULTIPLIER a cached of Inl e \<Rightarrow> Inl e | Inr mu \<Rightarrow>
        Inr \<lparr>r_POST_ID = p, r_MIN_INTENSITY = mn, r_MAX_UPVOTES = mx,
             r_KEYWORD_LIST = ks, r_KEYWORD_INTENSITY_MULTIPLIER = mu\<rparr>)"

text \<open>
  \<open>save_cached_settings\<close>, called with the dict of lines 70 to 76: the file is
  overwritten with the five entries.
\<close>

definition save_cached_settings :: "resolved \<Rightarrow> cache_file" where
  "save_cached_settings r =
     Document (JObj
       [(''post_id'', r_POST_ID r),
        (''min_intensity'', r_MIN_INTENSITY r),
        (''max_upvotes'', r_MAX_UPVOTES r),
        (''keywords'', r_KEYWORD_LIST r),
        (''multiplier'', r_KEYWORD_INTENSITY_MULTIPLIER r)])"

text \<open>
  Lines 58 to 76, run once when the module is loaded: reset, load, resolve, save. The
  result is the state of the cache file afterwards and either the exception that ended
  the start-up or the resolved names.
\<close>

definition reset_cache :: "args \<Rightarrow> cache_file \<Rightarrow> cache_file" where
  "reset_cache a file = (if arg_reset a \<and> file \<noteq> Missing then Missing else file)"

definition startup :: "args \<Rightarrow> cache_file \<Rightarrow> cache_file \<times> (exn + resolved)" where
  "startup a file =
     (let file1 = reset_cache a file
      in case load_cached_settings file1 of
           Inl e \<Rightarrow> (file1, Inl e)
         | Inr cached \<Rightarrow>
             (case resolve a cached of
                Inl e \<Rightarrow> (file1, Inl e)
              | Inr r \<Rightarrow> (save_cached_settings r, Inr r)))"

definition no_overrides :: args where
  "no_overrides =
     \<lparr>arg_id = None, arg_minimum = None, arg_max_upvotes = None, arg_reset = False,
      arg_keywords = None, arg_multiplier = None\<rparr>"


section \<open>The monitoring program\<close>

subsection \<open>What the program does, as a log\<close>

text \<open>The lines the program prints.\<close>

datatype message =
    CouldNotConnect exn
  | MonitoringPost string
  | MaxUpvotesLine int
  | MinIntensityLine pyfloat
  | KeywordTriggersLine "string list"
  | KeywordMultiplierLine pyfloat
  | NewComment string string
  | KeywordDetected pyfloat
  | PostScore int pyfloat
  | SentVibration pyfloat
  | NoActuators
  | NoDevices
  | RuntimeError exn
  | BotShutDown

text \<open>
  The calls on the device-control client, the sleeps and the prints, in the order the
  program makes them. A call is logged when it is made, whether it returns or raises.
\<close>

datatype event =
    Print message
  | ClientConnect
  | StartScanning
  | StopScanning
  | Sleep rat
  | ActuatorCommand pyfloat
  | ClientDisconnect

subsection \<open>The external collaborators\<close>

record comment =
  comment_id :: string
  comment_author :: string
  comment_body :: string

text \<open>The submission after a refresh: its score and its comments, flattened.\<close>

record submission =
  sub_score :: int
  sub_comments :: "comment list"

datatype device_state = NoDevice | NoActuator | Actuator

text \<open>
  How the device-control client behaves during one call of \<open>send_vibration\<close>: what
  \<open>client.devices\<close> holds, and for each awaited call whether it returns (\<open>None\<close>)
  or raises.
\<close>

record pulse_env =
  devices :: device_state
  command_on :: "exn option"
  hold :: "exn option"
  command_off :: "exn option"

text \<open>
  One pass of the \<open>while True\<close> loop, as the outside world answers it: the refresh of
  the submission (or the exception it raises), the device's behaviour while the comment
  of a given id is handled, and the \<open>asyncio.sleep(1)\<close> that ends the pass.
\<close>

record cycle_env =
  fetch :: "exn + submission"
  device_during :: "string \<Rightarrow> pulse_env"
  cadence :: "exn option"

text \<open>The answers to the calls outside the loop.\<close>

record session_env =
  connect :: "exn option"
  start_scanning :: "exn option"
  scan_sleep :: "exn option"
  stop_scanning :: "exn option"
  title :: "exn + string"
  disconnect :: "exn option"

subsection \<open>Fetching new comments\<close>

text \<open>
  \<^verbatim>\<open>
  def get_new_comments(submission, seen_ids):
      submission._fetch()
      submission.comments.replace_more(limit=0)
      comments = submission.comments.list()
      return [comment for comment in comments if comment.id not in seen_ids]
  \<close>
  The three calls on the submission are the refresh that \<open>fetch\<close> answers.
\<close>

definition get_new_comments :: "exn + submission \<Rightarrow> string set \<Rightarrow> exn + comment list" where
  "get_new_comments fetched seen_ids =
     (case fetched of
        Inl e \<Rightarrow> Inl e
      | Inr sub \<Rightarrow> Inr (filter (\<lambda>c. comment_id c \<notin> seen_ids) (sub_comments sub)))"

subsection \<open>Vibration\<close>

definition VIBRATION_DURATION :: rat where
  "VIBRATION_DURATION = 2"

text \<open>
  \<^verbatim>\<open>
  async def send_vibration(client, intensity):
      if client.devices:
          device = client.devices[0]
          if device.actuators:
              actuator = device.actuators[0]
              await actuator.command(intensity)
              print(...)
              await asyncio.sleep(VIBRATION_DURATION)
              await actuator.command(0.0)
          else:
              print("No actuators on device.")
      else:
          print("No Buttplug devices connected.")
  \<close>
\<close>

definition send_vibration :: "pulse_env \<Rightarrow> pyfloat \<Rightarrow> event list \<times> exn option" where
  "send_vibration env intensity =
     (case devices env of
        NoDevice \<Rightarrow> ([Print NoDevices], None)
      | NoActuator \<Rightarrow> ([Print NoActuators], None)
      | Actuator \<Rightarrow>
          (case command_on env of
             Some e \<Rightarrow> ([ActuatorCommand intensity], Some e)
           | None \<Rightarrow>
               (case hold env of
                  Some e \<Rightarrow>
                    ([ActuatorCommand intensity, Print (SentVibration intensity),
                      Sleep VIBRATION_DURATION], Some e)
                | None \<Rightarrow>
                    ([ActuatorCommand intensity, Print (SentVibration intensity),
                      Sleep VIBRATION_DURATION, ActuatorCommand (Fin 0)],
                     command_off env))))"

subsection \<open>The loop body\<close>

text \<open>
  Lines 149 to 162, for one comment: print it, select the multiplier, read the score,
  compute the intensity, send the vibration. The result is the log and the exception
  that ended the body, if one did.
\<close>

definition handle_comment ::
  "unicode_lower \<Rightarrow> settings \<Rightarrow> pulse_env \<Rightarrow> int \<Rightarrow> comment \<Rightarrow> event list \<times> exn option" where
  "handle_comment ul st env score c =
     (let shown = [Print (NewComment (comment_author c) (take_chars 80 (comment_body c)))];
          multiplier = select_multiplier ul st (comment_body c);
          boosted =
            (if keyword_detected ul st (comment_body c) then [Print (KeywordDetected multiplier)]
             else []);
          post_score = or_1 score
      in case calculate_intensity st post_score multiplier of
           Inl e \<Rightarrow> (shown @ boosted, Some e)
         | Inr intensity \<Rightarrow>
             (let (pulse, r) = send_vibration env intensity
              in (shown @ boosted @ [Print (PostScore post_score intensity)] @ pulse, r)))"

text \<open>
  The \<open>for comment in new_comments\<close> loop. Each comment's id is added to
  \<open>seen_comment_ids\<close> first (line 147). The log pairs each handled comment's id
  with the events of its handling.
\<close>

fun for_comments ::
  "unicode_lower \<Rightarrow> settings \<Rightarrow> (string \<Rightarrow> pulse_env) \<Rightarrow> int \<Rightarrow> string set \<Rightarrow> comment list \<Rightarrow>
   (string \<times> event list) list \<times> string set \<times> exn option" where
  "for_comments ul st dev score seen [] = ([], seen, None)"
| "for_comments ul st dev score seen (c # cs) =
     (let seen1 = insert (comment_id c) seen;
          (evs, r) = handle_comment ul st (dev (comment_id c)) score c
      in case r of
           Some e \<Rightarrow> ([(comment_id c, evs)], seen1, Some e)
         | None \<Rightarrow>
             (let (rest, seen2, r2) = for_comments ul st dev score seen1 cs
              in ((comment_id c, evs) # rest, seen2, r2)))"

subsection \<open>The monitoring loop\<close>

text \<open>
  The \<open>while True\<close> loop never ends by itself. It is run here against the answers to
  finitely many passes; when they are used up and no exception was raised the loop is
  still going (\<open>Exhausted\<close>).
\<close>

datatype loop_end = Exhausted | Threw exn

fun monitor ::
  "unicode_lower \<Rightarrow> settings \<Rightarrow> string set \<Rightarrow> cycle_env list \<Rightarrow>
   (string \<times> event list) list list \<times> string set \<times> loop_end" where
  "monitor ul st seen [] = ([], seen, Exhausted)"
| "monitor ul st seen (env # envs) =
     (case get_new_comments (fetch env) seen of
        Inl e \<Rightarrow> ([[]], seen, Threw e)
      | Inr new_comments \<Rightarrow>
          (let score = (case fetch env of Inr sub \<Rightarrow> sub_score sub | Inl _ \<Rightarrow> 0);
               (handled, seen1, r) =
                 for_comments ul st (device_during env) score seen new_comments
           in case r of
                Some e \<Rightarrow> ([handled], seen1, Threw e)
              | None \<Rightarrow>
                  (case cadence env of
                     Some e \<Rightarrow> ([handled], seen1, Threw e)
                   | None \<Rightarrow>
                       (let (logs, seen2, ended) = monitor ul st seen1 envs
                        in (handled # logs, seen2, ended)))))"

subsection \<open>main\<close>

text \<open>Lines 126 to 133: the calls inside the first \<open>try\<close>.\<close>

definition connect_and_scan :: "session_env \<Rightarrow> event list \<times> exn option" where
  "connect_and_scan env =
     (case connect env of
        Some e \<Rightarrow> ([ClientConnect], Some e)
      | None \<Rightarrow>
          (case start_scanning env of
             Some e \<Rightarrow> ([ClientConnect, StartScanning], Some e)
           | None \<Rightarrow>
               (case scan_sleep env of
                  Some e \<Rightarrow> ([ClientConnect, StartScanning, Sleep 1], Some e)
                | None \<Rightarrow>
                    ([ClientConnect, StartScanning, Sleep 1, StopScanning],
                     stop_scanning env))))"

datatype outcome = Returned | Propagated exn | StillMonitoring

record run =
  before_loop :: "event list"
  cycles :: "(string \<times> event list) list list"
  after_loop :: "event list"
  outcome :: outcome
  seen_comment_ids :: "string set"

definition banner :: "settings \<Rightarrow> string \<Rightarrow> event list" where
  "banner st t =
     [Print (MonitoringPost t), Print (MaxUpvotesLine (MAX_UPVOTES st)),
      Print (MinIntensityLine (MIN_INTENSITY st)), Print (KeywordTriggersLine (KEYWORD_LIST st)),
      Print (KeywordMultiplierLine (KEYWORD_INTENSITY_MULTIPLIER st))]"

text \<open>
  Lines 166 to 170, entered when the loop raised \<open>e\<close>: \<open>except Exception\<close> prints the
  runtime error when \<open>e\<close> is an \<open>Exception\<close>; \<open>finally\<close> disconnects and prints in
  either case. An exception of the disconnect propagates; otherwise a caught \<open>e\<close> lets
  \<open>main\<close> return and an uncaught one propagates.
\<close>

definition shut_down :: "session_env \<Rightarrow> exn \<Rightarrow> event list \<times> outcome" where
  "shut_down env e =
     (let handler = (if is_Exception e then [Print (RuntimeError e)] else [])
      in case disconnect env of
           Some d \<Rightarrow> (handler @ [ClientDisconnect], Propagated d)
         | None \<Rightarrow>
             (handler @ [ClientDisconnect, Print BotShutDown],
              if is_Exception e then Returned else Propagated e))"

definition main :: "unicode_lower \<Rightarrow> settings \<Rightarrow> session_env \<Rightarrow> cycle_env list \<Rightarrow> run" where
  "main ul st env envs =
     (case connect_and_scan env of
        (evs, Some e) \<Rightarrow>
          (if is_Exception e
           then \<lparr>before_loop = evs @ [Print (CouldNotConnect e)], cycles = [], after_loop = [],
                 outcome = Returned, seen_comment_ids = {}\<rparr>
           else \<lparr>before_loop = evs, cycles = [], after_loop = [],
                 outcome = Propagated e, seen_comment_ids = {}\<rparr>)
      | (evs, None) \<Rightarrow>
          (case title env of
             Inl e \<Rightarrow>
               \<lparr>before_loop = evs, cycles = [], after_loop = [],
                outcome = Propagated e, seen_comment_ids = {}\<rparr>
           | Inr t \<Rightarrow>
               (let (logs, seen, ended) = monitor ul st {} envs
                in case ended of
                     Exhausted \<Rightarrow>
                       \<lparr>before_loop = evs @ banner st t, cycles = logs, after_loop = [],
                        outcome = StillMonitoring, seen_comment_ids = seen\<rparr>
                   | Threw e \<Rightarrow>
                       (let (evs2, out) = shut_down env e
                        in \<lparr>before_loop = evs @ banner st t, cycles = logs, after_loop = evs2,
                            outcome = out, seen_comment_ids = seen\<rparr>))))"

section \<open>Inputs used in the examples\<close>

text \<open>The settings that a run with no cache and no overrides resolves to.\<close>

definition default_settings :: settings where
  "default_settings =
     \<lparr>POST_ID = ''gxvdih'', MIN_INTENSITY = lit (2 / 10), MAX_UPVOTES = 100,
      KEYWORD_LIST = default_keywords, KEYWORD_INTENSITY_MULTIPLIER = lit (15 / 10)\<rparr>"

text \<open>A session in which every call outside the loop returns.\<close>

definition ok_session :: session_env where
  "ok_session =
     \<lparr>connect = None, start_scanning = None, scan_sleep = None, stop_scanning = None,
      title = Inr ''A post'', disconnect = None\<rparr>"

text \<open>No device is connected: a pulse prints a line and sends nothing.\<close>

definition no_device :: pulse_env where
  "no_device = \<lparr>devices = NoDevice, command_on = None, hold = None, command_off = None\<rparr>"

definition sample_comment :: comment where
  "sample_comment =
     \<lparr>comment_id = ''c1'', comment_author = ''alice'', comment_body = ''hello there''\<rparr>"

text \<open>A pass that finds the thread at score 50 with one comment.\<close>

definition sample_pass :: cycle_env where
  "sample_pass =
     \<lparr>fetch = Inr \<lparr>sub_score = 50, sub_comments = [sample_comment]\<rparr>,
      device_during = (\<lambda>_. no_device), cadence = None\<rparr>"

text \<open>A pass whose refresh of the submission raises.\<close>

definition failing_pass :: cycle_env where
  "failing_pass =
     \<lparr>fetch = Inl ExternalError, device_during = (\<lambda>_. no_device), cadence = None\<rparr>"

definition second_comment :: comment where
  "second_comment =
     \<lparr>comment_id = ''c2'', comment_author = ''bob'', comment_body = ''me too''\<rparr>"

text \<open>A device whose actuator raises when it is commanded.\<close>

definition broken_device :: pulse_env where
  "broken_device =
     \<lparr>devices = Actuator, command_on = Some ExternalError, hold = None, command_off = None\<rparr>"

text \<open>A pass that finds two comments while the device is broken.\<close>

definition raising_pass :: cycle_env where
  "raising_pass =
     \<lparr>fetch = Inr \<lparr>sub_score = 50, sub_comments = [sample_comment, second_comment]\<rparr>,
      device_during = (\<lambda>_. broken_device), cadence = None\<rparr>"

text \<open>
  The strings of the examples are ASCII, so that the Unicode tables are never consulted;
  this stand-in for them leaves every byte outside ASCII as it is.
\<close>

definition no_unicode :: unicode_lower where
  "no_unicode before c after = [c]"

section \<open>Properties of the binary64 rounding\<close>

subsection \<open>Powers of two and the binary exponent\<close>

lemma powi2_less_iff: "(2::rat) powi a < 2 powi b \<longleftrightarrow> a < b"
  by (metis less_le_not_le linorder_not_less one_less_numeral_iff power_int_increasing power_int_strict_increasing semiring_norm(76) one_le_numeral)

lemma powi2_le_iff: "(2::rat) powi a \<le> 2 powi b \<longleftrightarrow> a \<le> b"
  by (metis powi2_less_iff linorder_not_less)

lemma powi2_nonneg: "0 \<le> k \<Longrightarrow> (2::rat) powi k = 2 ^ nat k"
  by (simp add: power_int_def)

lemma powi2_neg: "0 \<le> k \<Longrightarrow> (2::rat) powi (- k) = 1 / 2 ^ nat k"
  by (simp only: power_int_minus_divide powi2_nonneg)

lemma ilog2_ge1:
  assumes "1 \<le> (x::rat)"
  shows "2 powi (ilog2 x) \<le> x \<and> x < 2 powi (ilog2 x + 1)"
proof -
  let ?n = "\<lfloor>x\<rfloor>"
  have n: "0 < ?n" using assms by simp
  have k: "1 \<le> bitlen ?n" using n by (simp add: bitlen_alt_def)
  from bitlen_bounds[OF n]
  have lo: "2 ^ nat (bitlen ?n - 1) \<le> ?n" and hi: "?n < 2 ^ nat (bitlen ?n)" by auto
  have e: "ilog2 x = bitlen ?n - 1" using assms by (simp add: ilog2_def)
  have "(2::rat) powi (bitlen ?n - 1) = 2 ^ nat (bitlen ?n - 1)"
    using k by (simp add: power_int_def)
  also have "\<dots> = of_int (2 ^ nat (bitlen ?n - 1))" by simp
  also have "\<dots> \<le> of_int ?n" using lo by (simp only: of_int_le_iff)
  also have "\<dots> \<le> x" by simp
  finally have A: "2 powi (ilog2 x) \<le> x" using e by simp
  have "?n + 1 \<le> 2 ^ nat (bitlen ?n)" using hi by simp
  then have "(of_int (?n + 1)::rat) \<le> of_int (2 ^ nat (bitlen ?n))"
    by (simp only: of_int_le_iff)
  moreover have "x < of_int (?n + 1)" by linarith
  ultimately have "x < of_int (2 ^ nat (bitlen ?n))" by linarith
  also have "\<dots> = 2 powi (bitlen ?n)"
    using k by (simp add: power_int_def)
  finally have B: "x < 2 powi (ilog2 x + 1)" using e by simp
  from A B show ?thesis by simp
qed

lemma ilog2_lt1:
  assumes "0 < (x::rat)" "x < 1"
  shows "2 powi (ilog2 x) \<le> x \<and> x < 2 powi (ilog2 x + 1)"
proof -
  let ?y = "1 / x"
  let ?m = "\<lceil>?y\<rceil> - 1"
  have y: "1 < ?y" using assms by simp
  have m: "0 < ?m" using y by (simp add: less_ceiling_iff)
  have k: "1 \<le> bitlen ?m" using m by (simp add: bitlen_alt_def)
  from bitlen_bounds[OF m]
  have lo: "2 ^ nat (bitlen ?m - 1) \<le> ?m" and hi: "?m < 2 ^ nat (bitlen ?m)" by auto
  have e: "ilog2 x = - bitlen ?m" using assms by (simp add: ilog2_def)
  have my: "of_int ?m < ?y" by linarith
  have ym: "?y \<le> of_int (?m + 1)" by (simp add: le_of_int_ceiling)
  have "(of_int (2 ^ nat (bitlen ?m - 1))::rat) \<le> of_int ?m"
    using lo by (simp only: of_int_le_iff)
  moreover have "(of_int (2 ^ nat (bitlen ?m - 1))::rat) = 2 ^ nat (bitlen ?m - 1)" by simp
  ultimately have lo': "(2::rat) ^ nat (bitlen ?m - 1) < ?y" using my by linarith
  have "?m + 1 \<le> 2 ^ nat (bitlen ?m)" using hi by simp
  then have "(of_int (?m + 1)::rat) \<le> of_int (2 ^ nat (bitlen ?m))"
    by (simp only: of_int_le_iff)
  moreover have "(of_int (2 ^ nat (bitlen ?m))::rat) = 2 ^ nat (bitlen ?m)" by simp
  ultimately have hi': "?y \<le> (2::rat) ^ nat (bitlen ?m)" using ym by linarith
  have p1: "(2::rat) powi (- bitlen ?m) = 1 / 2 ^ nat (bitlen ?m)"
    using k by (simp only: powi2_neg)
  have p2: "(2::rat) powi (- bitlen ?m + 1) = 1 / 2 ^ nat (bitlen ?m - 1)"
  proof -
    have "- bitlen ?m + 1 = - (bitlen ?m - 1)" by simp
    then show ?thesis using k powi2_neg[of "bitlen ?m - 1"] by simp
  qed
  have A: "1 / 2 ^ nat (bitlen ?m) \<le> x"
    using hi' assms by (simp add: field_simps)
  have B: "x < 1 / 2 ^ nat (bitlen ?m - 1)"
    using lo' assms by (simp add: field_simps)
  show ?thesis using A B e p1 p2 by simp
qed

lemma ilog2_bounds:
  assumes "0 < (x::rat)"
  shows "2 powi (ilog2 x) \<le> x" and "x < 2 powi (ilog2 x + 1)"
  using ilog2_ge1[of x] ilog2_lt1[of x] assms by (cases "1 \<le> x"; simp)+

lemma ilog2_unique:
  assumes "2 powi e \<le> (x::rat)" "x < 2 powi (e + 1)"
  shows "ilog2 x = e"
proof -
  have x: "0 < x" using assms(1) zero_less_power_int[of "2::rat" e] by linarith
  have "(2::rat) powi (ilog2 x) < 2 powi (e + 1)"
    using ilog2_bounds(1)[OF x] assms(2) by linarith
  then have 1: "ilog2 x < e + 1" by (simp only: powi2_less_iff)
  have "(2::rat) powi e < 2 powi (ilog2 x + 1)"
    using ilog2_bounds(2)[OF x] assms(1) by linarith
  then have 2: "e < ilog2 x + 1" by (simp only: powi2_less_iff)
  from 1 2 show ?thesis by simp
qed


subsection \<open>round_half_even\<close>

lemma rhe_nearest:
  assumes "of_int n - 1 / 2 < t" "t < of_int n + 1 / 2"
  shows "round_half_even t = n"
proof (cases "of_int n \<le> t")
  case True
  then have "\<lfloor>t\<rfloor> = n" using assms by (simp add: floor_unique)
  then show ?thesis using assms by (simp add: round_half_even_def Let_def)
next
  case False
  then have f: "\<lfloor>t\<rfloor> = n - 1" using assms by (intro floor_unique) auto
  show ?thesis using assms by (simp add: round_half_even_def Let_def f)
qed

lemma rhe_of_int: "round_half_even (of_int n) = n"
  by (rule rhe_nearest) simp_all

lemma rhe_tie_up: "odd f \<Longrightarrow> round_half_even (of_int f + 1 / 2) = f + 1"
proof -
  assume o: "odd f"
  have "\<lfloor>(of_int f + 1 / 2 :: rat)\<rfloor> = f" by (intro floor_unique) auto
  then show ?thesis using o by (simp add: round_half_even_def Let_def)
qed

lemma rhe_error: "\<bar>of_int (round_half_even t) - t\<bar> \<le> 1 / 2"
proof -
  have "of_int \<lfloor>t\<rfloor> \<le> t" "t < of_int \<lfloor>t\<rfloor> + 1" by linarith+
  then show ?thesis by (auto simp: round_half_even_def Let_def)
qed

lemma rhe_mono:
  assumes "s \<le> t"
  shows "round_half_even s \<le> round_half_even t"
proof -
  have fs: "of_int \<lfloor>s\<rfloor> \<le> s" "s < of_int \<lfloor>s\<rfloor> + 1" by linarith+
  have ft: "of_int \<lfloor>t\<rfloor> \<le> t" "t < of_int \<lfloor>t\<rfloor> + 1" by linarith+
  have le: "\<lfloor>s\<rfloor> \<le> \<lfloor>t\<rfloor>" using assms by (rule floor_mono)
  show ?thesis
  proof (cases "\<lfloor>s\<rfloor> = \<lfloor>t\<rfloor>")
    case True
    then show ?thesis using assms by (auto simp: round_half_even_def Let_def)
  next
    case False
    then have "\<lfloor>s\<rfloor> + 1 \<le> \<lfloor>t\<rfloor>" using le by simp
    moreover have "round_half_even s \<le> \<lfloor>s\<rfloor> + 1" by (auto simp: round_half_even_def Let_def)
    moreover have "\<lfloor>t\<rfloor> \<le> round_half_even t" by (auto simp: round_half_even_def Let_def)
    ultimately show ?thesis by linarith
  qed
qed

lemma rhe_ge: "of_int n \<le> t \<Longrightarrow> n \<le> round_half_even t"
  using rhe_mono[of "of_int n" t] by (simp add: rhe_of_int)

lemma rhe_le: "t \<le> of_int n \<Longrightarrow> round_half_even t \<le> n"
  using rhe_mono[of t "of_int n"] by (simp add: rhe_of_int)


subsection \<open>round64\<close>

lemma powi2_pos: "0 < (2::rat) powi k"
  by simp

lemma powi2_split: "(2::rat) powi a = 2 powi (a - b) * 2 powi b"
  by (simp flip: power_int_add)

lemma powi2_of_int: "0 \<le> k \<Longrightarrow> (2::rat) powi k = of_int (2 ^ nat k)"
  by (simp add: powi2_nonneg)

lemma quantum_eq:
  assumes "2 powi e \<le> x" "x < 2 powi (e + 1)"
  shows "quantum x = 2 powi (max (e - 52) (- 1074))"
proof -
  have "0 < x" using assms(1) powi2_pos[of e] by linarith
  then have "\<bar>x\<bar> = x" by simp
  then show ?thesis using ilog2_unique[OF assms] by (simp add: quantum_def)
qed

lemma round64_eval:
  assumes "2 powi e \<le> x" "x < 2 powi (e + 1)"
  shows "round64 x =
    of_int (round_half_even (x / 2 powi (max (e - 52) (- 1074)))) * 2 powi (max (e - 52) (- 1074))"
proof -
  have "0 < x" using assms(1) powi2_pos[of e] by linarith
  then show ?thesis using quantum_eq[OF assms] by (simp add: round64_def)
qed

lemma round64_zero: "round64 0 = 0"
  by (simp add: round64_def)

lemma quantum_pos: "0 < quantum x"
  by (simp add: quantum_def)

lemma round64_nonneg:
  assumes "0 \<le> x"
  shows "0 \<le> round64 x"
proof (cases "x = 0")
  case True
  then show ?thesis by (simp add: round64_def)
next
  case False
  have "(of_int 0 :: rat) \<le> x / quantum x" using assms quantum_pos[of x] by simp
  then have "0 \<le> round_half_even (x / quantum x)" by (rule rhe_ge)
  then show ?thesis using False quantum_pos[of x] by (simp add: round64_def)
qed

lemma ilog2_mono:
  assumes "0 < x" "x \<le> y"
  shows "ilog2 x \<le> ilog2 y"
proof -
  have "0 < y" using assms by linarith
  have "(2::rat) powi (ilog2 x) < 2 powi (ilog2 y + 1)"
    using ilog2_bounds(1)[OF assms(1)] ilog2_bounds(2)[OF \<open>0 < y\<close>] assms(2) by linarith
  then have "ilog2 x < ilog2 y + 1" by (simp only: powi2_less_iff)
  then show ?thesis by simp
qed

lemma powi2_int_multiple:
  assumes "k \<le> E"
  shows "(2::rat) powi E = of_int (2 ^ nat (E - k)) * 2 powi k"
proof -
  have "(2::rat) powi E = 2 powi (E - k) * 2 powi k" by (rule powi2_split)
  also have "(2::rat) powi (E - k) = of_int (2 ^ nat (E - k))"
    using assms by (intro powi2_of_int) simp
  finally show ?thesis .
qed

lemma rhe_scaled_le:
  assumes "k \<le> E" "x \<le> 2 powi E"
  shows "of_int (round_half_even (x / 2 powi k)) * 2 powi k \<le> (2::rat) powi E"
proof -
  define N :: int where "N = 2 ^ nat (E - k)"
  have pN: "(2::rat) powi E = of_int N * 2 powi k"
    unfolding N_def using assms(1) by (rule powi2_int_multiple)
  have "x \<le> of_int N * 2 powi k" using assms(2) pN by simp
  then have "x / 2 powi k \<le> of_int N"
    using powi2_pos[of k] by (simp add: pos_divide_le_eq)
  then have "round_half_even (x / 2 powi k) \<le> N" by (rule rhe_le)
  then have "(of_int (round_half_even (x / 2 powi k)) :: rat) \<le> of_int N"
    by (simp only: of_int_le_iff)
  then have "of_int (round_half_even (x / 2 powi k)) * 2 powi k \<le> of_int N * (2::rat) powi k"
    by (rule mult_right_mono) simp
  then show ?thesis unfolding pN .
qed

lemma rhe_scaled_ge:
  assumes "k \<le> E" "2 powi E \<le> x"
  shows "(2::rat) powi E \<le> of_int (round_half_even (x / 2 powi k)) * 2 powi k"
proof -
  define N :: int where "N = 2 ^ nat (E - k)"
  have pN: "(2::rat) powi E = of_int N * 2 powi k"
    unfolding N_def using assms(1) by (rule powi2_int_multiple)
  have "of_int N * 2 powi k \<le> x" using assms(2) pN by simp
  then have "of_int N \<le> x / 2 powi k"
    using powi2_pos[of k] by (simp add: pos_le_divide_eq)
  then have "N \<le> round_half_even (x / 2 powi k)" by (rule rhe_ge)
  then have "(of_int N :: rat) \<le> of_int (round_half_even (x / 2 powi k))"
    by (simp only: of_int_le_iff)
  then have "of_int N * (2::rat) powi k \<le> of_int (round_half_even (x / 2 powi k)) * 2 powi k"
    by (rule mult_right_mono) simp
  then show ?thesis unfolding pN .
qed

lemma round64_le_pow:
  assumes "0 < x" "x \<le> 2 powi E" "max (ilog2 x - 52) (- 1074) \<le> E"
  shows "round64 x \<le> 2 powi E"
  using rhe_scaled_le[OF assms(3) assms(2)] round64_eval[OF ilog2_bounds[OF assms(1)]]
  by simp

lemma round64_ge_pow:
  assumes "0 < x" "2 powi E \<le> x" "max (ilog2 x - 52) (- 1074) \<le> E"
  shows "2 powi E \<le> round64 x"
  using rhe_scaled_ge[OF assms(3) assms(2)] round64_eval[OF ilog2_bounds[OF assms(1)]]
  by simp

lemma round64_mono:
  assumes "0 \<le> x" "x \<le> y"
  shows "round64 x \<le> round64 y"
proof (cases "x = 0")
  case True
  then show ?thesis using round64_nonneg[of y] assms by (simp add: round64_zero)
next
  case False
  then have x: "0 < x" using assms by simp
  then have y: "0 < y" using assms by linarith
  let ?kx = "max (ilog2 x - 52) (- 1074)"
  let ?ky = "max (ilog2 y - 52) (- 1074)"
  have rx: "round64 x = of_int (round_half_even (x / 2 powi ?kx)) * 2 powi ?kx"
    using round64_eval[OF ilog2_bounds[OF x]] .
  have ry: "round64 y = of_int (round_half_even (y / 2 powi ?ky)) * 2 powi ?ky"
    using round64_eval[OF ilog2_bounds[OF y]] .
  have e: "ilog2 x \<le> ilog2 y" using ilog2_mono[OF x assms(2)] .
  show ?thesis
  proof (cases "?kx = ?ky")
    case True
    have "x / 2 powi ?ky \<le> y / 2 powi ?ky"
      using assms(2) powi2_pos[of ?ky] by (simp add: divide_right_mono)
    then have "round_half_even (x / 2 powi ?ky) \<le> round_half_even (y / 2 powi ?ky)"
      by (rule rhe_mono)
    then have "(of_int (round_half_even (x / 2 powi ?ky)) :: rat)
        \<le> of_int (round_half_even (y / 2 powi ?ky))"
      by (simp only: of_int_le_iff)
    then have "of_int (round_half_even (x / 2 powi ?ky)) * (2::rat) powi ?ky
        \<le> of_int (round_half_even (y / 2 powi ?ky)) * 2 powi ?ky"
      using powi2_pos[of ?ky] by (simp only: mult_le_cancel_right_pos)
    then show ?thesis using rx ry True by simp
  next
    case False
    then have lt: "ilog2 x < ilog2 y" and ky: "- 1074 \<le> ilog2 y" using e by auto
    have "x < 2 powi (ilog2 x + 1)" using ilog2_bounds(2)[OF x] .
    also have "\<dots> \<le> 2 powi (ilog2 y)" using lt by (simp add: powi2_le_iff)
    finally have "x \<le> 2 powi (ilog2 y)" by simp
    moreover have "?kx \<le> ilog2 y" using lt ky by simp
    ultimately have 1: "round64 x \<le> 2 powi (ilog2 y)" using x by (intro round64_le_pow)
    have "?ky \<le> ilog2 y" using ky by simp
    then have 2: "2 powi (ilog2 y) \<le> round64 y"
      using y ilog2_bounds(1)[OF y] by (intro round64_ge_pow)
    from 1 2 show ?thesis by linarith
  qed
qed


lemma round64_int_multiple:
  assumes "0 < x" "x = of_int N * 2 powi (max (ilog2 x - 52) (- 1074))"
  shows "round64 x = x"
proof -
  let ?k = "max (ilog2 x - 52) (- 1074)"
  have "x / 2 powi ?k = of_int N"
    using assms(2) powi2_pos[of ?k] by (simp add: field_simps)
  then have "round_half_even (x / 2 powi ?k) = N" by (simp only: rhe_of_int)
  then show ?thesis
    using round64_eval[OF ilog2_bounds[OF assms(1)]] assms(2) by simp
qed

lemma round64_pow2:
  assumes "- 1074 \<le> E"
  shows "round64 (2 powi E) = 2 powi E"
proof -
  have e: "ilog2 (2 powi E) = E"
    by (rule ilog2_unique) (simp_all add: powi2_less_iff)
  have "max (E - 52) (- 1074) \<le> E" using assms by simp
  from powi2_int_multiple[OF this]
  have m: "(2::rat) powi E = of_int (2 ^ nat (E - max (E - 52) (- 1074))) *
      2 powi (max (ilog2 (2 powi E) - 52) (- 1074))"
    unfolding e .
  show ?thesis by (rule round64_int_multiple[OF _ m]) simp
qed

lemma round64_one: "round64 1 = 1"
  using round64_pow2[of 0] by simp

lemma round64_two: "round64 2 = 2"
  using round64_pow2[of 1] by simp

lemma round64_repr:
  assumes "0 < n" "n \<le> 2 ^ 53" "- 1074 \<le> k"
  shows "round64 (of_int n * 2 powi k) = of_int n * 2 powi k"
proof (cases "n = 2 ^ 53")
  case True
  have "(of_int n :: rat) * 2 powi k = 2 powi 53 * 2 powi k" using True by simp
  also have "\<dots> = 2 powi (53 + k)" by (simp add: power_int_add)
  finally have "of_int n * 2 powi k = (2::rat) powi (53 + k)" .
  then show ?thesis using round64_pow2[of "53 + k"] assms(3) by simp
next
  case False
  let ?r = "of_int n * (2::rat) powi k"
  let ?k' = "max (ilog2 ?r - 52) (- 1074)"
  have r: "0 < ?r" using assms(1) by simp
  have "n < 2 ^ 53" using False assms(2) by simp
  then have "(of_int n :: rat) < of_int (2 ^ 53)" by (simp only: of_int_less_iff)
  then have "?r < of_int (2 ^ 53) * 2 powi k"
    using powi2_pos[of k] by (simp only: mult_less_cancel_right_pos)
  also have "of_int (2 ^ 53) * (2::rat) powi k = 2 powi (53 + k)"
    by (simp add: power_int_add)
  finally have "(2::rat) powi (ilog2 ?r) < 2 powi (53 + k)"
    using ilog2_bounds(1)[OF r] by linarith
  then have "ilog2 ?r < 53 + k" by (simp only: powi2_less_iff)
  then have kk: "?k' \<le> k" using assms(3) by simp
  have "?r = of_int n * (of_int (2 ^ nat (k - ?k')) * 2 powi ?k')"
    using powi2_int_multiple[OF kk] by simp
  also have "\<dots> = of_int (n * 2 ^ nat (k - ?k')) * 2 powi ?k'"
    by (simp only: of_int_mult mult.assoc)
  finally show ?thesis using r by (rule round64_int_multiple[rotated])
qed

lemma round64_is_repr:
  assumes "0 < x"
  shows "\<exists>n k. round64 x = of_int n * 2 powi k \<and> 0 \<le> n \<and> n \<le> 2 ^ 53 \<and> - 1074 \<le> k"
proof -
  let ?e = "ilog2 x"
  let ?k = "max (?e - 52) (- 1074)"
  let ?n = "round_half_even (x / 2 powi ?k)"
  have r: "round64 x = of_int ?n * 2 powi ?k"
    using round64_eval[OF ilog2_bounds[OF assms]] .
  have "(of_int 0 :: rat) \<le> x / 2 powi ?k" using assms by simp
  then have n0: "0 \<le> ?n" by (rule rhe_ge)
  have "x < 2 powi (?e + 1)" using ilog2_bounds(2)[OF assms] .
  also have "\<dots> = 2 powi (?e + 1 - ?k) * 2 powi ?k" by (rule powi2_split)
  also have "(2::rat) powi (?e + 1 - ?k) \<le> 2 powi 53"
    by (simp only: powi2_le_iff)
  finally have "x < 2 powi 53 * 2 powi ?k" by simp
  then have "x / 2 powi ?k \<le> 2 powi 53"
    using powi2_pos[of ?k] by (simp add: pos_divide_le_eq)
  then have "x / 2 powi ?k \<le> of_int (2 ^ 53)" by simp
  then have "?n \<le> 2 ^ 53" by (rule rhe_le)
  then show ?thesis using r n0 by (intro exI[of _ ?n] exI[of _ ?k]) simp
qed

lemma round64_idem:
  assumes "0 \<le> x"
  shows "round64 (round64 x) = round64 x"
proof (cases "x = 0")
  case True
  then show ?thesis by (simp add: round64_zero)
next
  case False
  then have "0 < x" using assms by simp
  from round64_is_repr[OF this] obtain n k
    where r: "round64 x = of_int n * 2 powi k" and n: "0 \<le> n" "n \<le> 2 ^ 53" and k: "- 1074 \<le> k"
    by blast
  show ?thesis
  proof (cases "n = 0")
    case True
    then show ?thesis using r by (simp add: round64_zero)
  next
    case False
    then have "0 < n" using n by simp
    from round64_repr[OF this n(2) k] show ?thesis using r by simp
  qed
qed

lemma round64_error:
  assumes "0 < x"
  shows "\<bar>round64 x - x\<bar> \<le> 2 powi (max (ilog2 x - 52) (- 1074)) / 2"
proof -
  let ?k = "max (ilog2 x - 52) (- 1074)"
  let ?n = "round_half_even (x / 2 powi ?k)"
  have r: "round64 x = of_int ?n * 2 powi ?k"
    using round64_eval[OF ilog2_bounds[OF assms]] .
  have "round64 x - x = (of_int ?n - x / 2 powi ?k) * 2 powi ?k"
    using r by (simp add: field_simps)
  then have "\<bar>round64 x - x\<bar> = \<bar>of_int ?n - x / 2 powi ?k\<bar> * 2 powi ?k"
    by (simp add: abs_mult)
  also have "\<dots> \<le> 1 / 2 * 2 powi ?k"
    using mult_right_mono[OF rhe_error[of "x / 2 powi ?k"], of "2 powi ?k"] by simp
  finally show ?thesis by simp
qed

lemma round64_error_unit:
  assumes "0 \<le> x" "x \<le> 1"
  shows "\<bar>round64 x - x\<bar> \<le> 1 / 2 ^ 54"
proof -
  consider "x = 0" | "x = 1" | "0 < x" "x < 1" using assms by linarith
  then show ?thesis
  proof cases
    case 1
    then show ?thesis by (simp add: round64_zero)
  next
    case 2
    then show ?thesis by (simp add: round64_one)
  next
    case 3
    let ?k = "max (ilog2 x - 52) (- 1074)"
    have "(2::rat) powi (ilog2 x) < 2 powi 0" using ilog2_bounds(1)[OF 3(1)] 3(2) by simp
    then have "ilog2 x < 0" by (simp only: powi2_less_iff)
    then have "?k \<le> - 53" by simp
    then have "(2::rat) powi ?k \<le> 2 powi (- 53)" by (simp only: powi2_le_iff)
    also have "(2::rat) powi (- 53) = 1 / 2 ^ 53" by (simp add: power_int_minus_divide)
    finally have "(2::rat) powi ?k / 2 \<le> 1 / 2 ^ 54" by simp
    then show ?thesis using round64_error[OF 3(1)] by linarith
  qed
qed

lemma round64_near_one:
  assumes "\<bar>z - 1\<bar> \<le> 1 / 2 ^ 54"
  shows "round64 z = 1"
proof (cases "1 \<le> z")
  case True
  have b: "2 powi 0 \<le> z" "z < 2 powi (0 + 1)" using True assms by simp_all
  have k: "max (0 - 52) (- 1074) = (- 52 :: int)" by simp
  have t: "of_int (2 ^ 52) - 1 / 2 < z / 2 powi (- 52)" "z / 2 powi (- 52) < of_int (2 ^ 52) + 1 / 2"
    using True assms by (simp_all add: power_int_minus_divide)
  have "round64 z = of_int (round_half_even (z / 2 powi (- 52))) * 2 powi (- 52)"
    using round64_eval[OF b] by (simp only: k)
  also have "round_half_even (z / 2 powi (- 52)) = 2 ^ 52" using t by (rule rhe_nearest)
  finally show ?thesis by (simp add: power_int_minus_divide)
next
  case False
  have b: "2 powi (- 1) \<le> z" "z < 2 powi (- 1 + 1)" using False assms by simp_all
  have k: "max (- 1 - 52) (- 1074) = (- 53 :: int)" by simp
  have ev: "round64 z = of_int (round_half_even (z / 2 powi (- 53))) * 2 powi (- 53)"
    using round64_eval[OF b] by (simp only: k)
  have "round_half_even (z / 2 powi (- 53)) = 2 ^ 53"
  proof (cases "z = 1 - 1 / 2 ^ 54")
    case True
    have zt: "z / 2 powi (- 53) = of_int (2 ^ 53 - 1) + 1 / 2"
      using True by (simp add: power_int_minus_divide)
    have "odd (2 ^ 53 - 1 :: int)" by simp
    from rhe_tie_up[OF this] show ?thesis unfolding zt by simp
  next
    case ne: False
    have t: "of_int (2 ^ 53) - 1 / 2 < z / 2 powi (- 53)" "z / 2 powi (- 53) < of_int (2 ^ 53) + 1 / 2"
      using False ne assms by (simp_all add: power_int_minus_divide)
    then show ?thesis by (rule rhe_nearest)
  qed
  with ev have "round64 z = of_int (2 ^ 53) * 2 powi (- 53)" by (simp only:)
  then show ?thesis by (simp add: power_int_minus_divide)
qed

subsection \<open>Evaluating the rounding on given numbers\<close>

lemma fl_small:
  assumes "0 \<le> x" "x \<le> 2"
  shows "fl x = Fin (round64 x)"
proof -
  have "0 \<le> round64 x" using assms(1) by (rule round64_nonneg)
  moreover have "round64 x \<le> 2" using round64_mono[OF assms] by (simp add: round64_two)
  moreover have "(2::rat) < 2 ^ 1024"
    using power_strict_increasing[of 1 1024 "2::rat"] by simp
  ultimately show ?thesis by (simp add: fl_def Let_def)
qed

lemma fl_eval:
  assumes "2 powi e \<le> x" "x < 2 powi (e + 1)" "- 1022 \<le> e" "e \<le> 0"
    and "round_half_even (x * 2 powi (52 - e)) = n"
  shows "fl x = Fin (of_int n * 2 powi (e - 52))"
proof -
  have k: "max (e - 52) (- 1074) = e - 52" using assms(3) by simp
  have "(2::rat) powi (e + 1) \<le> 2 powi 1" using assms(4) by (simp only: powi2_le_iff)
  then have x2: "x \<le> 2" using assms(2) by simp
  have x0: "0 \<le> x" using assms(1) powi2_pos[of e] by linarith
  have "x / 2 powi (e - 52) = x * 2 powi (52 - e)"
    using power_int_minus[of "2::rat" "e - 52"] by (simp add: field_simps)
  then have "round64 x = of_int n * 2 powi (e - 52)"
    using round64_eval[OF assms(1,2)] assms(5) by (simp add: k)
  then show ?thesis using fl_small[OF x0 x2] by simp
qed

lemma floor_rat_numeral_div:
  "\<lfloor>(numeral a :: rat) / numeral b\<rfloor> = numeral a div numeral b"
  by (metis floor_divide_of_int_eq of_int_numeral)

lemmas rhe_numeral = round_half_even_def Let_def floor_rat_numeral_div

lemma fl_zero: "fl 0 = Fin 0"
  using fl_small[of 0] by (simp add: round64_zero)

lemma fl_one: "fl 1 = Fin 1"
  using fl_small[of 1] by (simp add: round64_one)

lemma lit_2_10: "lit (2 / 10) = Fin (3602879701896397 / 2 ^ 54)"
  unfolding lit_def
  by (rule trans[OF fl_eval[where e = "- 3" and n = 7205759403792794]])
     (simp_all add: rhe_numeral)


lemma lit_15_10: "lit (15 / 10) = Fin (3 / 2)"
  unfolding lit_def
  by (rule trans[OF fl_eval[where e = 0 and n = 6755399441055744]])
     (simp_all add: rhe_numeral)

lemma lit_6_10: "lit (6 / 10) = Fin (5404319552844595 / 2 ^ 53)"
  unfolding lit_def
  by (rule trans[OF fl_eval[where e = "- 1" and n = 5404319552844595]])
     (simp_all add: rhe_numeral)

lemma lit_9_10: "lit (9 / 10) = Fin (8106479329266893 / 2 ^ 53)"
  unfolding lit_def
  by (rule trans[OF fl_eval[where e = "- 1" and n = 8106479329266893]])
     (simp_all add: rhe_numeral)

lemma truediv_50_100: "int_truediv 50 100 = Inr (Fin (1 / 2))"
proof -
  have "fl (1 / 2) = Fin (1 / 2)"
    by (rule trans[OF fl_eval[where e = "- 1" and n = "2 ^ 52"]]) (simp_all add: rhe_numeral)
  then show ?thesis by (simp add: int_truediv_def)
qed

lemma one_minus_min: "fsub (Fin 1) (Fin (3602879701896397 / 2 ^ 54)) = Fin (7205759403792794 / 2 ^ 53)"
  unfolding fsub_def
  by (simp, rule trans[OF fl_eval[where e = "- 1" and n = 7205759403792794]])
     (simp_all add: rhe_numeral)

lemma times_scaled: "fmul (Fin (7205759403792794 / 2 ^ 53)) (Fin (1 / 2)) = Fin (7205759403792794 / 2 ^ 54)"
  by (simp, rule trans[OF fl_eval[where e = "- 2" and n = 7205759403792794]])
     (simp_all add: rhe_numeral)

lemma base_50: "fadd (Fin (3602879701896397 / 2 ^ 54)) (Fin (7205759403792794 / 2 ^ 54)) = Fin (5404319552844596 / 2 ^ 53)"
  by (simp, rule trans[OF fl_eval[where e = "- 1" and n = 5404319552844596]])
     (simp_all add: rhe_numeral)

lemma base_50_times_1: "fmul (Fin (5404319552844596 / 2 ^ 53)) (Fin 1) = Fin (5404319552844596 / 2 ^ 53)"
  by (simp, rule trans[OF fl_eval[where e = "- 1" and n = 5404319552844596]])
     (simp_all add: rhe_numeral)

lemma base_50_times_boost: "fmul (Fin (5404319552844596 / 2 ^ 53)) (Fin (3 / 2)) = Fin (8106479329266894 / 2 ^ 53)"
  by (simp, rule trans[OF fl_eval[where e = "- 1" and n = 8106479329266894]])
     (simp_all add: rhe_numeral)

lemma calc_default_50:
  "calculate_intensity default_settings 50 (Fin 1) = Inr (Fin (5404319552844596 / 2 ^ 53))"
  by (simp only: calculate_intensity_def default_settings_def settings.simps lit_2_10
      truediv_50_100 sum.case Let_def one_minus_min times_scaled base_50 base_50_times_1)
     (simp add: py_min_def)

lemma calc_default_50_boost:
  "calculate_intensity default_settings 50 (lit (15 / 10)) = Inr (Fin (8106479329266894 / 2 ^ 53))"
  by (simp only: calculate_intensity_def default_settings_def settings.simps lit_2_10 lit_15_10
      truediv_50_100 sum.case Let_def one_minus_min times_scaled base_50 base_50_times_boost)
     (simp add: py_min_def)

section \<open>The intensity function\<close>

lemma calc_50:
  assumes mn: "MIN_INTENSITY st = lit (2 / 10)" and mx: "MAX_UPVOTES st = 100"
  shows "calculate_intensity st 50 (Fin 1) = Inr (Fin (5404319552844596 / 2 ^ 53))"
  by (simp only: calculate_intensity_def mn mx lit_2_10
      truediv_50_100 sum.case Let_def one_minus_min times_scaled base_50 base_50_times_1)
     (simp add: py_min_def)

lemma calc_50_boost:
  assumes mn: "MIN_INTENSITY st = lit (2 / 10)" and mx: "MAX_UPVOTES st = 100"
  shows "calculate_intensity st 50 (lit (15 / 10)) = Inr (Fin (8106479329266894 / 2 ^ 53))"
  by (simp only: calculate_intensity_def mn mx lit_2_10 lit_15_10
      truediv_50_100 sum.case Let_def one_minus_min times_scaled base_50 base_50_times_boost)
     (simp add: py_min_def)

text \<open>
  Claim C1, as the code has it. The intensity function divides the score by
  \<open>MAX_UPVOTES\<close> (raising \<open>ZeroDivisionError\<close> for a zero maximum and
  \<open>OverflowError\<close> when the quotient is too large for a float) and otherwise
  returns \<open>min((MIN_INTENSITY + (1.0 - MIN_INTENSITY) * scaled) * boost, 1.0)\<close>, each
  operation rounded to binary64. With \<open>MAX_UPVOTES = 100\<close> and
  \<open>MIN_INTENSITY = 0.2\<close>, the results at score 50 are the floats
  \<open>5404319552844596 / 2\<^sup>5\<^sup>3\<close> (printed 0.6000000000000001) for the boost 1.0 and
  \<open>8106479329266894 / 2\<^sup>5\<^sup>3\<close> (printed 0.9000000000000001) for the boost 1.5: each
  is the float next above the float that the literal 0.6, respectively 0.9, denotes.
\<close>

theorem C1_intensity:
  "calculate_intensity st score boost =
     (if MAX_UPVOTES st = 0 then Inl ZeroDivisionError
      else case fl (of_int score / of_int (MAX_UPVOTES st)) of
             Fin scaled \<Rightarrow>
               Inr (py_min
                 (fmul (fadd (MIN_INTENSITY st)
                          (fmul (fsub (Fin 1) (MIN_INTENSITY st)) (Fin scaled))) boost)
                 (Fin 1))
           | _ \<Rightarrow> Inl OverflowError) \<and>
   calculate_intensity (st\<lparr>MIN_INTENSITY := lit (2 / 10), MAX_UPVOTES := 100\<rparr>) 50 (Fin 1) =
     Inr (Fin (5404319552844596 / 2 ^ 53)) \<and>
   calculate_intensity (st\<lparr>MIN_INTENSITY := lit (2 / 10), MAX_UPVOTES := 100\<rparr>) 50 (lit (15 / 10)) =
     Inr (Fin (8106479329266894 / 2 ^ 53)) \<and>
   lit (6 / 10) = Fin (5404319552844595 / 2 ^ 53) \<and>
   lit (9 / 10) = Fin (8106479329266893 / 2 ^ 53)"
proof (intro conjI)
  show "calculate_intensity st score boost =
     (if MAX_UPVOTES st = 0 then Inl ZeroDivisionError
      else case fl (of_int score / of_int (MAX_UPVOTES st)) of
             Fin scaled \<Rightarrow>
               Inr (py_min
                 (fmul (fadd (MIN_INTENSITY st)
                          (fmul (fsub (Fin 1) (MIN_INTENSITY st)) (Fin scaled))) boost)
                 (Fin 1))
           | _ \<Rightarrow> Inl OverflowError)"
    by (simp add: calculate_intensity_def int_truediv_def split: pyfloat.splits)
next
  show "calculate_intensity (st\<lparr>MIN_INTENSITY := lit (2 / 10), MAX_UPVOTES := 100\<rparr>) 50 (Fin 1) =
     Inr (Fin (5404319552844596 / 2 ^ 53))"
    by (rule calc_50) simp_all
next
  show "calculate_intensity (st\<lparr>MIN_INTENSITY := lit (2 / 10), MAX_UPVOTES := 100\<rparr>) 50
      (lit (15 / 10)) = Inr (Fin (8106479329266894 / 2 ^ 53))"
    by (rule calc_50_boost) simp_all
next
  show "lit (6 / 10) = Fin (5404319552844595 / 2 ^ 53)" by (rule lit_6_10)
next
  show "lit (9 / 10) = Fin (8106479329266893 / 2 ^ 53)" by (rule lit_9_10)
qed


text \<open>
  Claim C1 as stated fails on its two examples: the results at score 50 are not the
  floats 0.6 and 0.9.
\<close>

theorem C1_intensity_counterexample:
  "calculate_intensity default_settings 50 (Fin 1) \<noteq> Inr (lit (6 / 10)) \<and>
   calculate_intensity default_settings 50 (lit (15 / 10)) \<noteq> Inr (lit (9 / 10))"
  by (simp only: calc_default_50 calc_default_50_boost lit_6_10 lit_9_10) simp

subsection \<open>The intensity on the unit range\<close>

lemma fl_unit:
  assumes "0 \<le> x" "x \<le> 1"
  shows "fl x = Fin (round64 x)" and "0 \<le> round64 x" and "round64 x \<le> 1"
proof -
  show "fl x = Fin (round64 x)" using assms by (intro fl_small) simp_all
  show "0 \<le> round64 x" using assms(1) by (rule round64_nonneg)
  show "round64 x \<le> 1" using round64_mono[OF assms] by (simp add: round64_one)
qed

lemma fl_two:
  assumes "0 \<le> x" "x \<le> 2"
  shows "0 \<le> round64 x" and "round64 x \<le> 2"
proof -
  show "0 \<le> round64 x" using assms(1) by (rule round64_nonneg)
  show "round64 x \<le> 2" using round64_mono[OF assms] by (simp add: round64_two)
qed

lemma calculate_intensity_unit:
  assumes m: "MIN_INTENSITY st = Fin m" "0 \<le> m" "m \<le> 1"
    and M: "0 < MAX_UPVOTES st" and s: "0 \<le> s" "s \<le> MAX_UPVOTES st"
  shows "calculate_intensity st s (Fin 1) =
    Inr (Fin (min (round64 (round64
      (m + round64 (round64 (1 - m) * round64 (of_int s / of_int (MAX_UPVOTES st)))))) 1))"
proof -
  define q :: rat where "q = of_int s / of_int (MAX_UPVOTES st)"
  have q: "0 \<le> q" "q \<le> 1" using M s by (simp_all add: q_def)
  define a where "a = round64 q"
  have a: "fl q = Fin a" "0 \<le> a" "a \<le> 1" using fl_unit[OF q] by (simp_all add: a_def)
  have div: "int_truediv s (MAX_UPVOTES st) = Inr (Fin a)"
    using M a(1) by (simp add: int_truediv_def q_def)
  define d where "d = round64 (1 - m)"
  have d: "fl (1 - m) = Fin d" "0 \<le> d" "d \<le> 1"
    using fl_unit[of "1 - m"] m by (simp_all add: d_def)
  have sub: "fsub (Fin 1) (Fin m) = Fin d" using d(1) by (simp add: fsub_def)
  define p where "p = round64 (d * a)"
  have da: "0 \<le> d * a" "d * a \<le> 1"
    using a d by (simp_all add: mult_le_one)
  have p: "fl (d * a) = Fin p" "0 \<le> p" "p \<le> 1" using fl_unit[OF da] by (simp_all add: p_def)
  define b where "b = round64 (m + p)"
  have mp: "0 \<le> m + p" "m + p \<le> 2" using m p by simp_all
  have b: "fl (m + p) = Fin b" "0 \<le> b" "b \<le> 2"
    using fl_small[OF mp] fl_two[OF mp] by (simp_all add: b_def)
  define c where "c = round64 b"
  have c: "fl b = Fin c" using fl_small[OF b(2,3)] by (simp add: c_def)
  have "calculate_intensity st s (Fin 1) = Inr (py_min (Fin c) (Fin 1))"
    by (simp add: calculate_intensity_def div m(1) sub p(1) b(1) c)
  also have "py_min (Fin c) (Fin 1) = Fin (min c 1)"
    by (simp add: py_min_def min_def)
  finally show ?thesis
    by (simp add: c_def b_def p_def d_def a_def q_def)
qed

text \<open>On finite operands in range, the result is a chain of roundings; each step is
  monotone in the quotient of score and maximum.\<close>

lemma intensity_unit_mono:
  assumes m: "0 \<le> m" "m \<le> 1" and q: "0 \<le> q" "q \<le> q'" "q' \<le> 1"
  shows "min (round64 (round64 (m + round64 (round64 (1 - m) * round64 q)))) 1
       \<le> min (round64 (round64 (m + round64 (round64 (1 - m) * round64 q')))) 1"
proof -
  have d: "0 \<le> round64 (1 - m)" using m by (intro round64_nonneg) simp
  have a: "0 \<le> round64 q" "round64 q \<le> round64 q'"
    using q by (auto intro: round64_nonneg round64_mono)
  have 1: "0 \<le> round64 (1 - m) * round64 q" using d a by simp
  have 2: "round64 (1 - m) * round64 q \<le> round64 (1 - m) * round64 q'"
    using d a by (intro mult_left_mono)
  have p: "0 \<le> round64 (round64 (1 - m) * round64 q)"
    "round64 (round64 (1 - m) * round64 q) \<le> round64 (round64 (1 - m) * round64 q')"
    using 1 2 by (auto intro: round64_nonneg round64_mono)
  have 3: "0 \<le> m + round64 (round64 (1 - m) * round64 q)" using m p by simp
  have 4: "m + round64 (round64 (1 - m) * round64 q)
      \<le> m + round64 (round64 (1 - m) * round64 q')" using p by simp
  have b: "0 \<le> round64 (m + round64 (round64 (1 - m) * round64 q))"
    "round64 (m + round64 (round64 (1 - m) * round64 q))
      \<le> round64 (m + round64 (round64 (1 - m) * round64 q'))"
    using 3 4 by (auto intro: round64_nonneg round64_mono)
  have "round64 (round64 (m + round64 (round64 (1 - m) * round64 q)))
      \<le> round64 (round64 (m + round64 (round64 (1 - m) * round64 q')))"
    using b by (rule round64_mono)
  then show ?thesis by (simp add: min_le_iff_disj)
qed

text \<open>At the full score the quotient is 1, and \<open>m + fl(1 - m)\<close> is within half a unit in
  the last place of 1, so that it rounds to 1.\<close>

lemma intensity_unit_full:
  assumes m: "0 \<le> m" "m \<le> 1"
  shows "min (round64 (round64 (m + round64 (round64 (1 - m) * round64 1)))) 1 = 1"
proof -
  define d where "d = round64 (1 - m)"
  have m1: "0 \<le> 1 - m" "1 - m \<le> 1" using m by simp_all
  have idem: "round64 d = d" unfolding d_def using m1(1) by (rule round64_idem)
  have "\<bar>d - (1 - m)\<bar> \<le> 1 / 2 ^ 54" unfolding d_def using m1 by (rule round64_error_unit)
  then have "\<bar>(m + d) - 1\<bar> \<le> 1 / 2 ^ 54" by (simp add: algebra_simps)
  then have "round64 (m + d) = 1" by (rule round64_near_one)
  then show ?thesis
    by (simp add: round64_one idem flip: d_def)
qed


text \<open>
  Claim C9. With \<open>MIN_INTENSITY\<close> a finite float in \<open>[0, 1]\<close> and
  \<open>MAX_UPVOTES\<close> positive, for scores \<open>1 \<le> s \<le> t \<le> MAX_UPVOTES\<close> and the
  multiplier 1.0: the intensity function returns a finite float at both scores, the one
  at \<open>s\<close> not above the one at \<open>t\<close>; and at the score \<open>MAX_UPVOTES\<close> it returns
  exactly 1.0. Every operation here is rounded to binary64.
\<close>

theorem C9_monotone:
  assumes "MIN_INTENSITY st = Fin m" "0 \<le> m" "m \<le> 1" "0 < MAX_UPVOTES st"
    and "1 \<le> s" "s \<le> t" "t \<le> MAX_UPVOTES st"
  shows "(\<exists>a b. calculate_intensity st s (Fin 1) = Inr (Fin a) \<and>
            calculate_intensity st t (Fin 1) = Inr (Fin b) \<and> a \<le> b) \<and>
         calculate_intensity st (MAX_UPVOTES st) (Fin 1) = Inr (Fin 1)"
proof -
  let ?M = "MAX_UPVOTES st"
  define I where
    "I = (\<lambda>q. min (round64 (round64 (m + round64 (round64 (1 - m) * round64 q)))) 1)"
  have at: "calculate_intensity st k (Fin 1) = Inr (Fin (I (of_int k / of_int ?M)))"
    if "0 \<le> k" "k \<le> ?M" for k
    unfolding I_def using assms(1-4) that by (rule calculate_intensity_unit)
  have q: "(0::rat) \<le> of_int s / of_int ?M"
    "(of_int s :: rat) / of_int ?M \<le> of_int t / of_int ?M"
    "(of_int t :: rat) / of_int ?M \<le> 1"
    using assms by (simp_all add: divide_right_mono)
  have mono: "I (of_int s / of_int ?M) \<le> I (of_int t / of_int ?M)"
    unfolding I_def using assms(2,3) q by (rule intensity_unit_mono)
  have full: "I (of_int ?M / of_int ?M) = 1"
    unfolding I_def using assms(4) intensity_unit_full[OF assms(2,3)] by simp
  have "calculate_intensity st s (Fin 1) = Inr (Fin (I (of_int s / of_int ?M)))"
    using assms by (intro at) simp_all
  moreover have "calculate_intensity st t (Fin 1) = Inr (Fin (I (of_int t / of_int ?M)))"
    using assms by (intro at) simp_all
  moreover have "calculate_intensity st ?M (Fin 1) = Inr (Fin 1)"
    using at[of ?M] assms(4) full by simp
  ultimately show ?thesis using mono by simp
qed

theorem C9_monotone_witness:
  "(\<exists>a b. calculate_intensity default_settings 50 (Fin 1) = Inr (Fin a) \<and>
          calculate_intensity default_settings 100 (Fin 1) = Inr (Fin b) \<and> a \<le> b) \<and>
   calculate_intensity default_settings 100 (Fin 1) = Inr (Fin 1)"
proof -
  have m: "MIN_INTENSITY default_settings = Fin (3602879701896397 / 2 ^ 54)"
    by (simp only: default_settings_def settings.simps lit_2_10)
  have M: "MAX_UPVOTES default_settings = 100" by (simp add: default_settings_def)
  have h: "(0::rat) \<le> 3602879701896397 / 2 ^ 54" "(3602879701896397 / 2 ^ 54 :: rat) \<le> 1"
    "0 < MAX_UPVOTES default_settings" "(1::int) \<le> 50" "(50::int) \<le> 100"
    "100 \<le> MAX_UPVOTES default_settings"
    by (simp_all add: M)
  from C9_monotone[OF m h] show ?thesis unfolding M .
qed


section \<open>Keyword classification and the score substitution\<close>

lemma upper_case_letters:
  "distinct ''ABCDEFGHIJKLMNOPQRSTUVWXYZ''"
  "\<forall>c \<in> set ''ABCDEFGHIJKLMNOPQRSTUVWXYZ''. is_ascii c"
  by (simp_all add: is_ascii_def)

lemma lower_char_variant:
  assumes "is_ascii b" "b \<notin> set ''ABCDEFGHIJKLMNOPQRSTUVWXYZ''"
    and "a = b \<or>
      (a, b) \<in> set (zip ''ABCDEFGHIJKLMNOPQRSTUVWXYZ'' ''abcdefghijklmnopqrstuvwxyz'')"
  shows "is_ascii a \<and> lower_char a = b"
proof -
  define U where "U = ''ABCDEFGHIJKLMNOPQRSTUVWXYZ''"
  define L where "L = ''abcdefghijklmnopqrstuvwxyz''"
  have len: "length U = length L" by (simp add: U_def L_def)
  have keys: "map fst (zip U L) = U" using len by (simp add: map_fst_zip)
  have lc: "lower_char c = (case map_of (zip U L) c of Some l \<Rightarrow> l | None \<Rightarrow> c)" for c
    by (simp only: lower_char_def U_def L_def)
  from assms(3) show ?thesis
  proof
    assume "a = b"
    moreover have "map_of (zip U L) b = None"
      using assms(2) keys by (simp add: map_of_eq_None_iff U_def flip: set_map)
    ultimately show ?thesis using assms(1) by (simp add: lc)
  next
    assume "(a, b) \<in> set (zip ''ABCDEFGHIJKLMNOPQRSTUVWXYZ'' ''abcdefghijklmnopqrstuvwxyz'')"
    then have m: "(a, b) \<in> set (zip U L)" by (simp only: U_def L_def)
    then have "a \<in> set U" by (rule set_zip_leftD)
    then have asc: "is_ascii a" using upper_case_letters(2) by (simp only: U_def)
    have "distinct U" using upper_case_letters(1) by (simp only: U_def)
    then have "distinct (map fst (zip U L))" by (simp only: keys)
    then have "map_of (zip U L) a = Some b" using m by (rule map_of_is_SomeI)
    then show ?thesis using asc by (simp add: lc)
  qed
qed

lemma case_variant_lower:
  "ascii_case_variant w k \<Longrightarrow> list_all is_ascii w \<and> map lower_char w = k"
  unfolding ascii_case_variant_def
proof (induction rule: list_all2_induct)
  case Nil
  show ?case by simp
next
  case (Cons a w b k)
  from Cons.hyps(1) have "is_ascii a \<and> lower_char a = b"
    by (intro lower_char_variant) blast+
  then show ?case using Cons.IH by simp
qed

lemma sublist_after: "sublist xs ys \<Longrightarrow> sublist xs (ps @ ys)"
  unfolding sublist_def by (metis append.assoc)

lemma lower_from_ascii:
  "list_all is_ascii w \<Longrightarrow>
   lower_from ul before (w @ rest) = map lower_char w @ lower_from ul (before @ w) rest"
  by (induction w arbitrary: before) simp_all

lemma lower_from_sublist:
  "list_all is_ascii w \<Longrightarrow> sublist (map lower_char w) (lower_from ul before (ps @ w @ ss))"
proof (induction ps arbitrary: before)
  case Nil
  then show ?case by (simp add: lower_from_ascii)
next
  case (Cons p ps)
  from Cons.IH[OF Cons.prems, of "before @ [p]"]
  have "sublist (map lower_char w)
      ((if is_ascii p then [lower_char p] else ul before p (ps @ w @ ss))
       @ lower_from ul (before @ [p]) (ps @ w @ ss))"
    by (rule sublist_after)
  then show ?case by simp
qed

lemma sublist_lower:
  assumes "list_all is_ascii w" "sublist w body"
  shows "sublist (map lower_char w) (lower ul body)"
proof -
  from assms(2) obtain ps ss where "body = ps @ w @ ss" by (auto simp: sublist_def)
  then show ?thesis using lower_from_sublist[OF assms(1)] by (simp add: lower_def)
qed

lemma keyword_detected_iff:
  "keyword_detected ul st body \<longleftrightarrow> (\<exists>k\<in>set (KEYWORD_LIST st). sublist k (lower ul body))"
  by (simp add: keyword_detected_def py_in_def list_ex_iff)

lemma split_comma_trailing:
  "\<exists>ws. split_comma (s @ '','') = ws @ [[]] \<and> ws \<noteq> []"
proof (induction s)
  case Nil
  show ?case by simp
next
  case (Cons c cs)
  then obtain ws where ws: "split_comma (cs @ '','') = ws @ [[]]" "ws \<noteq> []" by blast
  then obtain w ws' where w: "ws = w # ws'" by (cases ws) auto
  show ?case
  proof (cases "c = CHR '',''")
    case True
    then show ?thesis using ws by (intro exI[of _ "[] # ws"]) simp
  next
    case False
    then show ?thesis using ws w by (intro exI[of _ "(c # w) # ws'"]) simp
  qed
qed




text \<open>
  Claim C7. The comment body is lowercased and each trigger is searched in it as a
  substring: when some trigger of the list is a substring of the lowercased body, the
  multiplier selected is \<open>KEYWORD_INTENSITY_MULTIPLIER\<close>, and when none is, the
  multiplier selected is 1.0. The match does not depend on the letter case of the body:
  when the body contains a trigger of the list in some letter case, as it contains
  \<open>KNOT\<close> for the trigger \<open>knot\<close>, the multiplier selected is
  \<open>KEYWORD_INTENSITY_MULTIPLIER\<close>. This holds whatever the Unicode tables do to the
  characters outside ASCII.
\<close>

theorem C7_keyword_match:
  "(k \<in> set (KEYWORD_LIST st) \<and> sublist k (lower ul body)
      \<longrightarrow> select_multiplier ul st body = KEYWORD_INTENSITY_MULTIPLIER st) \<and>
   (k \<in> set (KEYWORD_LIST st) \<and> ascii_case_variant w k \<and> sublist w body
      \<longrightarrow> select_multiplier ul st body = KEYWORD_INTENSITY_MULTIPLIER st) \<and>
   ((\<forall>k \<in> set (KEYWORD_LIST st). \<not> sublist k (lower ul body))
      \<longrightarrow> select_multiplier ul st body = Fin 1) \<and>
   ascii_case_variant ''KNOT'' ''knot'' \<and> ascii_case_variant ''Knot'' ''knot''"
proof (intro conjI impI)
  assume "k \<in> set (KEYWORD_LIST st) \<and> sublist k (lower ul body)"
  then have "keyword_detected ul st body" unfolding keyword_detected_iff by blast
  then show "select_multiplier ul st body = KEYWORD_INTENSITY_MULTIPLIER st"
    by (simp add: select_multiplier_def)
next
  assume a: "k \<in> set (KEYWORD_LIST st) \<and> ascii_case_variant w k \<and> sublist w body"
  then have "list_all is_ascii w" "map lower_char w = k"
    using case_variant_lower[of w k] by simp_all
  then have "sublist k (lower ul body)" using a sublist_lower[of w body ul] by simp
  then have "keyword_detected ul st body" using a unfolding keyword_detected_iff by blast
  then show "select_multiplier ul st body = KEYWORD_INTENSITY_MULTIPLIER st"
    by (simp add: select_multiplier_def)
next
  assume "\<forall>k \<in> set (KEYWORD_LIST st). \<not> sublist k (lower ul body)"
  then have "\<not> keyword_detected ul st body" unfolding keyword_detected_iff by blast
  then show "select_multiplier ul st body = Fin 1"
    by (simp add: select_multiplier_def)
next
  show "ascii_case_variant ''KNOT'' ''knot''"
    by (simp add: ascii_case_variant_def is_ascii_def)
next
  show "ascii_case_variant ''Knot'' ''knot''"
    by (simp add: ascii_case_variant_def is_ascii_def)
qed

lemma lower_hello: "lower ul ''hello there'' = ''hello there''"
  by (simp add: lower_def is_ascii_def lower_char_def)

theorem C7_keyword_match_witness:
  "\<forall>ul.
     select_multiplier ul default_settings ''Such a KNOT'' =
       KEYWORD_INTENSITY_MULTIPLIER default_settings \<and>
     select_multiplier ul default_settings ''good PuPpY'' =
       KEYWORD_INTENSITY_MULTIPLIER default_settings \<and>
     select_multiplier ul default_settings ''hello there'' = Fin 1"
proof (intro allI conjI)
  fix ul :: unicode_lower
  have 1: "''knot'' \<in> set (KEYWORD_LIST default_settings) \<and>
      ascii_case_variant ''KNOT'' ''knot'' \<and> sublist ''KNOT'' ''Such a KNOT''"
    by (simp add: default_settings_def default_keywords_def ascii_case_variant_def
        is_ascii_def sublist_code)
  from 1 C7_keyword_match[of "''knot''" default_settings ul "''Such a KNOT''" "''KNOT''"]
  show "select_multiplier ul default_settings ''Such a KNOT'' =
       KEYWORD_INTENSITY_MULTIPLIER default_settings" by blast
  have 2: "''puppy'' \<in> set (KEYWORD_LIST default_settings) \<and>
      ascii_case_variant ''PuPpY'' ''puppy'' \<and> sublist ''PuPpY'' ''good PuPpY''"
    by (simp add: default_settings_def default_keywords_def ascii_case_variant_def
        is_ascii_def sublist_code)
  from 2 C7_keyword_match[of "''puppy''" default_settings ul "''good PuPpY''" "''PuPpY''"]
  show "select_multiplier ul default_settings ''good PuPpY'' =
       KEYWORD_INTENSITY_MULTIPLIER default_settings" by blast
  have 3: "\<forall>k \<in> set (KEYWORD_LIST default_settings). \<not> sublist k (lower ul ''hello there'')"
    by (simp add: lower_hello default_settings_def default_keywords_def sublist_code)
  from 3 C7_keyword_match[of "''knot''" default_settings ul "''hello there''" "''KNOT''"]
  show "select_multiplier ul default_settings ''hello there'' = Fin 1" by blast
qed

text \<open>
  Claim C10. When the trigger list contains the empty string, the multiplier
  \<open>KEYWORD_INTENSITY_MULTIPLIER\<close> is selected for every comment body. A keyword
  override that ends in a comma produces such a list: \<open>split(",")\<close> keeps the empty
  piece after the last comma, and the resolved list is the split override, unfiltered.
\<close>

theorem C10_empty_trigger:
  "([] \<in> set (KEYWORD_LIST st) \<longrightarrow>
      select_multiplier ul st body = KEYWORD_INTENSITY_MULTIPLIER st) \<and>
   [] \<in> set (split_comma (s @ '','')) \<and>
   resolve_KEYWORD_LIST (a\<lparr>arg_keywords := Some (s @ '','')\<rparr>) cached =
     Inr (JArr (map JStr (split_comma (s @ '',''))))"
proof (intro conjI impI)
  assume "[] \<in> set (KEYWORD_LIST st)"
  then have "keyword_detected ul st body"
    by (auto simp: keyword_detected_def py_in_def list_ex_iff)
  then show "select_multiplier ul st body = KEYWORD_INTENSITY_MULTIPLIER st"
    by (simp add: select_multiplier_def)
next
  from split_comma_trailing[of s] show "[] \<in> set (split_comma (s @ '',''))" by auto
next
  show "resolve_KEYWORD_LIST (a\<lparr>arg_keywords := Some (s @ '','')\<rparr>) cached =
     Inr (JArr (map JStr (split_comma (s @ '',''))))"
    by (simp add: resolve_KEYWORD_LIST_def)
qed

theorem C10_empty_trigger_witness:
  "\<forall>ul.
     split_comma ''knot,'' = [''knot'', []] \<and>
     select_multiplier ul (default_settings\<lparr>KEYWORD_LIST := split_comma ''knot,''\<rparr>)
       ''hello there'' = KEYWORD_INTENSITY_MULTIPLIER default_settings"
proof
  fix ul :: unicode_lower
  show "split_comma ''knot,'' = [''knot'', []] \<and>
     select_multiplier ul (default_settings\<lparr>KEYWORD_LIST := split_comma ''knot,''\<rparr>)
       ''hello there'' = KEYWORD_INTENSITY_MULTIPLIER default_settings"
    using C10_empty_trigger[where st = "default_settings\<lparr>KEYWORD_LIST := split_comma ''knot,''\<rparr>"
      and body = "''hello there''" and s = "''knot''" and a = no_overrides and cached = JNull
      and ul = ul]
    by simp
qed

section \<open>Settings cache\<close>

lemma resolve_saved:
  "resolve no_overrides
     (JObj [(''post_id'', p), (''min_intensity'', mn), (''max_upvotes'', mx),
            (''keywords'', ks), (''multiplier'', mu)]) =
   Inr \<lparr>r_POST_ID = p, r_MIN_INTENSITY = mn, r_MAX_UPVOTES = mx,
        r_KEYWORD_LIST = ks, r_KEYWORD_INTENSITY_MULTIPLIER = mu\<rparr>"
  by (simp add: resolve_def no_overrides_def resolve_POST_ID_def resolve_MIN_INTENSITY_def
      resolve_MAX_UPVOTES_def resolve_KEYWORD_LIST_def resolve_MULTIPLIER_def)

lemma startup_saved:
  "startup no_overrides (save_cached_settings r) = (save_cached_settings r, Inr r)"
  by (simp add: startup_def reset_cache_def save_cached_settings_def resolve_saved)
     (simp add: no_overrides_def)

text \<open>
  Claim C6. When a start-up resolves the settings \<open>r\<close>, the cache file it leaves
  holds all five fields of \<open>r\<close>, whichever of them came from overrides; and a later
  start-up from that file with no overrides and no reset resolves the same \<open>r\<close> and
  leaves the file as it is. The witness is the run with the override
  \<open>minimum = 0.3\<close> on an absent cache, followed by a run with no overrides.
\<close>

theorem C6_round_trip:
  assumes "startup a file = (file', Inr r)"
  shows "file' =
      Document (JObj
        [(''post_id'', r_POST_ID r), (''min_intensity'', r_MIN_INTENSITY r),
         (''max_upvotes'', r_MAX_UPVOTES r), (''keywords'', r_KEYWORD_LIST r),
         (''multiplier'', r_KEYWORD_INTENSITY_MULTIPLIER r)]) \<and>
    startup no_overrides file' = (file', Inr r)"
proof -
  have f: "file' = save_cached_settings r"
    using assms by (auto simp: startup_def Let_def split: sum.splits)
  then have "file' =
      Document (JObj
        [(''post_id'', r_POST_ID r), (''min_intensity'', r_MIN_INTENSITY r),
         (''max_upvotes'', r_MAX_UPVOTES r), (''keywords'', r_KEYWORD_LIST r),
         (''multiplier'', r_KEYWORD_INTENSITY_MULTIPLIER r)])"
    by (simp add: save_cached_settings_def)
  moreover have "startup no_overrides file' = (file', Inr r)"
    unfolding f by (rule startup_saved)
  ultimately show ?thesis by simp
qed

theorem C6_round_trip_witness:
  "\<exists>file' r.
     startup (no_overrides\<lparr>arg_minimum := Some (lit (3 / 10))\<rparr>) Missing = (file', Inr r) \<and>
     r_MIN_INTENSITY r = JFloat (lit (3 / 10)) \<and>
     startup no_overrides file' = (file', Inr r) \<and>
     file' = Document (JObj
        [(''post_id'', JStr ''gxvdih''), (''min_intensity'', JFloat (lit (3 / 10))),
         (''max_upvotes'', JInt 100), (''keywords'', JArr (map JStr default_keywords)),
         (''multiplier'', JFloat (lit (15 / 10)))])"
proof -
  define r where "r = \<lparr>r_POST_ID = JStr ''gxvdih'', r_MIN_INTENSITY = JFloat (lit (3 / 10)),
    r_MAX_UPVOTES = JInt 100, r_KEYWORD_LIST = JArr (map JStr default_keywords),
    r_KEYWORD_INTENSITY_MULTIPLIER = JFloat (lit (15 / 10))\<rparr>"
  have ev: "startup (no_overrides\<lparr>arg_minimum := Some (lit (3 / 10))\<rparr>) Missing
      = (save_cached_settings r, Inr r)"
    by (simp add: startup_def reset_cache_def resolve_def no_overrides_def resolve_POST_ID_def
        resolve_MIN_INTENSITY_def resolve_MAX_UPVOTES_def resolve_KEYWORD_LIST_def
        resolve_MULTIPLIER_def r_def)
  from C6_round_trip[OF ev]
  have again: "startup no_overrides (save_cached_settings r) = (save_cached_settings r, Inr r)"
    by (rule conjunct2)
  have doc: "save_cached_settings r = Document (JObj
        [(''post_id'', JStr ''gxvdih''), (''min_intensity'', JFloat (lit (3 / 10))),
         (''max_upvotes'', JInt 100), (''keywords'', JArr (map JStr default_keywords)),
         (''multiplier'', JFloat (lit (15 / 10)))])"
    by (simp add: save_cached_settings_def r_def)
  have mn: "r_MIN_INTENSITY r = JFloat (lit (3 / 10))" by (simp add: r_def)
  from ev again doc mn show ?thesis by blast
qed

text \<open>
  Claim C8, as the code has it. A missing cache file loads as the empty dict. Content
  that \<open>json.load\<close> rejects is not treated as an empty cache: the decoding error is
  raised, and nothing catches it. From an empty cache, every field that is not
  overridden resolves to its built-in default.
\<close>

theorem C8_cache_loading:
  "load_cached_settings Missing = Inr (JObj []) \<and>
   load_cached_settings Unparsable = Inl JSONDecodeError \<and>
   resolve a (JObj []) =
     Inr \<lparr>r_POST_ID =
            (case arg_id a of
               Some s \<Rightarrow> if s \<noteq> [] then JStr s else JStr ''gxvdih''
             | None \<Rightarrow> JStr ''gxvdih''),
          r_MIN_INTENSITY =
            (case arg_minimum a of Some x \<Rightarrow> JFloat x | None \<Rightarrow> JFloat (lit (2 / 10))),
          r_MAX_UPVOTES =
            (case arg_max_upvotes a of Some n \<Rightarrow> JInt n | None \<Rightarrow> JInt 100),
          r_KEYWORD_LIST =
            (case arg_keywords a of
               Some s \<Rightarrow>
                 if s \<noteq> [] then JArr (map JStr (split_comma s))
                 else JArr (map JStr default_keywords)
             | None \<Rightarrow> JArr (map JStr default_keywords)),
          r_KEYWORD_INTENSITY_MULTIPLIER =
            (case arg_multiplier a of Some x \<Rightarrow> JFloat x | None \<Rightarrow> JFloat (lit (15 / 10)))\<rparr>"
  by (simp add: resolve_def resolve_POST_ID_def resolve_MIN_INTENSITY_def
      resolve_MAX_UPVOTES_def resolve_KEYWORD_LIST_def resolve_MULTIPLIER_def
      split: option.splits)

text \<open>
  Claim C8 as stated fails: with unparsable content in the cache file, loading does not
  return the empty dict, and the start-up ends with the decoding error.
\<close>

theorem C8_malformed_cache_counterexample:
  "load_cached_settings Unparsable \<noteq> Inr (JObj []) \<and>
   startup no_overrides Unparsable = (Unparsable, Inl JSONDecodeError)"
  by (simp add: startup_def reset_cache_def no_overrides_def)

section \<open>The monitoring loop\<close>

lemma for_comments_Some_append:
  "for_comments ul st dev score seen cs = (lg, seen', Some e) \<Longrightarrow>
   for_comments ul st dev score seen (cs @ later) = (lg, seen', Some e)"
  by (induction cs arbitrary: seen lg seen')
     (auto simp: Let_def split: prod.splits option.splits)

lemma monitor_Threw_append:
  "monitor ul st seen envs = (logs, seen', Threw e) \<Longrightarrow>
   monitor ul st seen (envs @ later) = (logs, seen', Threw e)"
  by (induction envs arbitrary: seen logs seen')
     (auto simp: Let_def split: sum.splits prod.splits option.splits)

lemma monitor_Exhausted_append:
  "monitor ul st seen envs = (logs, seen1, Exhausted) \<Longrightarrow>
   monitor ul st seen1 later = (logs2, seen2, r) \<Longrightarrow>
   monitor ul st seen (envs @ later) = (logs @ logs2, seen2, r)"
  by (induction envs arbitrary: seen logs seen1)
     (auto simp: Let_def split: sum.splits prod.splits option.splits)

lemma for_comments_ids:
  "for_comments ul st dev score seen cs = (lg, seen', r) \<Longrightarrow>
   seen' = seen \<union> fst ` set lg \<and> fst ` set lg \<subseteq> comment_id ` set cs \<and>
   (r = None \<longrightarrow> fst ` set lg = comment_id ` set cs)"
proof (induction cs arbitrary: seen lg seen' r)
  case Nil
  then show ?case by auto
next
  case (Cons c cs)
  obtain evs r1 where h: "handle_comment ul st (dev (comment_id c)) score c = (evs, r1)"
    by (cases "handle_comment ul st (dev (comment_id c)) score c")
  show ?case
  proof (cases r1)
    case (Some e)
    then show ?thesis using Cons.prems h by auto
  next
    case None
    obtain rest seen2 r2 where
      f: "for_comments ul st dev score (insert (comment_id c) seen) cs = (rest, seen2, r2)"
      by (cases "for_comments ul st dev score (insert (comment_id c) seen) cs") auto
    from Cons.IH[OF f] have
      s2: "seen2 = insert (comment_id c) seen \<union> fst ` set rest" and
      sub: "fst ` set rest \<subseteq> comment_id ` set cs" and
      full: "r2 = None \<longrightarrow> fst ` set rest = comment_id ` set cs"
      by simp_all
    from Cons.prems h None f have
      eq: "lg = (comment_id c, evs) # rest" "seen' = seen2" "r = r2"
      by (simp_all add: Let_def)
    have 1: "seen' = seen \<union> fst ` set lg" using eq s2 by auto
    have 2: "fst ` set lg \<subseteq> comment_id ` set (c # cs)" using eq sub by auto
    have 3: "r = None \<longrightarrow> fst ` set lg = comment_id ` set (c # cs)"
      using eq full by auto
    from 1 2 3 show ?thesis by blast
  qed
qed

lemma get_new_comments_unseen:
  "get_new_comments fetched seen = Inr new \<Longrightarrow> comment_id ` set new \<inter> seen = {}"
  by (auto simp: get_new_comments_def split: sum.splits)

lemma get_new_comments_all:
  "get_new_comments (Inr sub) seen = Inr new \<Longrightarrow>
   comment_id ` set (sub_comments sub) \<subseteq> seen \<union> comment_id ` set new"
  by (auto simp: get_new_comments_def)

lemma pass_ids:
  assumes "for_comments ul st dev score seen new = (handled, seen1, r1)"
    and "get_new_comments fetched seen = Inr new"
  shows "seen1 = seen \<union> fst ` set handled" and "fst ` set handled \<inter> seen = {}"
proof -
  from for_comments_ids[OF assms(1)] have
    a: "seen1 = seen \<union> fst ` set handled" and b: "fst ` set handled \<subseteq> comment_id ` set new"
    by simp_all
  show "seen1 = seen \<union> fst ` set handled" by (rule a)
  from get_new_comments_unseen[OF assms(2)] b
  show "fst ` set handled \<inter> seen = {}" by blast
qed

text \<open>One pass of the loop, unfolded for the case analysis of the proofs below.\<close>

lemma monitor_step:
  assumes "monitor ul st seen (env # envs) = (logs, seen', r)"
  obtains
    (fetch_raised) e where "fetch env = Inl e" "logs = [[]]" "seen' = seen" "r = Threw e"
  | (stopped) sub new handled seen1 e where
      "fetch env = Inr sub" "get_new_comments (fetch env) seen = Inr new"
      "for_comments ul st (device_during env) (sub_score sub) seen new = (handled, seen1, Some e)"
      "logs = [handled]" "seen' = seen1" "r = Threw e"
  | (cancelled) sub new handled seen1 e where
      "fetch env = Inr sub" "get_new_comments (fetch env) seen = Inr new"
      "for_comments ul st (device_during env) (sub_score sub) seen new = (handled, seen1, None)"
      "cadence env = Some e" "logs = [handled]" "seen' = seen1" "r = Threw e"
  | (continued) sub new handled seen1 logs1 where
      "fetch env = Inr sub" "get_new_comments (fetch env) seen = Inr new"
      "for_comments ul st (device_during env) (sub_score sub) seen new = (handled, seen1, None)"
      "cadence env = None" "monitor ul st seen1 envs = (logs1, seen', r)" "logs = handled # logs1"
proof (cases "fetch env")
  case (Inl e)
  then show ?thesis using assms fetch_raised by (simp add: get_new_comments_def)
next
  case (Inr sub)
  obtain new where new: "get_new_comments (fetch env) seen = Inr new"
    using Inr by (simp add: get_new_comments_def)
  obtain handled seen1 r1 where
    f: "for_comments ul st (device_during env) (sub_score sub) seen new = (handled, seen1, r1)"
    by (cases "for_comments ul st (device_during env) (sub_score sub) seen new") auto
  show ?thesis
  proof (cases r1)
    case (Some e)
    then show ?thesis using assms Inr new f stopped by (simp add: Let_def)
  next
    case None
    show ?thesis
    proof (cases "cadence env")
      case (Some e)
      then show ?thesis using assms Inr new f None cancelled by (simp add: Let_def)
    next
      case c: None
      obtain logs1 seen2 r2 where m: "monitor ul st seen1 envs = (logs1, seen2, r2)"
        by (cases "monitor ul st seen1 envs") auto
      then show ?thesis using assms Inr new f None c continued by (simp add: Let_def)
    qed
  qed
qed

lemma monitor_seen:
  "monitor ul st seen envs = (logs, seen', r) \<Longrightarrow>
   seen' = seen \<union> (\<Union>l\<in>set logs. fst ` set l) \<and> (\<forall>l\<in>set logs. fst ` set l \<inter> seen = {})"
proof (induction envs arbitrary: seen logs seen' r)
  case Nil
  then show ?case by simp
next
  case (Cons env envs)
  from Cons.prems show ?case
  proof (cases rule: monitor_step)
    case (fetch_raised e)
    then show ?thesis by simp
  next
    case (stopped sub new handled seen1 e)
    note h = pass_ids[OF stopped(3) stopped(2)]
    show ?thesis using h stopped(4,5) by simp
  next
    case (cancelled sub new handled seen1 e)
    note h = pass_ids[OF cancelled(3) cancelled(2)]
    show ?thesis using h cancelled(5,6) by simp
  next
    case (continued sub new handled seen1 logs1)
    note h = pass_ids[OF continued(3) continued(2)]
    from Cons.IH[OF continued(5)] have
      ih: "seen' = seen1 \<union> (\<Union>l\<in>set logs1. fst ` set l)"
        "\<forall>l\<in>set logs1. fst ` set l \<inter> seen1 = {}" by simp_all
    have A: "seen' = seen \<union> (\<Union>l\<in>set logs. fst ` set l)"
      unfolding continued(6) ih(1) h(1) by (simp add: Un_assoc)
    have "\<forall>l\<in>set logs1. fst ` set l \<inter> seen = {}"
      using ih(2) unfolding h(1) by blast
    then have B: "\<forall>l\<in>set logs. fst ` set l \<inter> seen = {}"
      unfolding continued(6) using h(2) by simp
    from A B show ?thesis by blast
  qed
qed

lemma monitor_later_disjoint:
  "monitor ul st seen envs = (logs, seen', r) \<Longrightarrow> i < j \<Longrightarrow> j < length logs \<Longrightarrow>
   fst ` set (logs ! i) \<inter> fst ` set (logs ! j) = {}"
proof (induction envs arbitrary: seen logs seen' r i j)
  case Nil
  then show ?case by simp
next
  case (Cons env envs)
  from Cons.prems(1) show ?case
  proof (cases rule: monitor_step)
    case (fetch_raised e)
    then show ?thesis using Cons.prems by simp
  next
    case (stopped sub new handled seen1 e)
    then show ?thesis using Cons.prems by simp
  next
    case (cancelled sub new handled seen1 e)
    then show ?thesis using Cons.prems by simp
  next
    case (continued sub new handled seen1 logs1)
    obtain j' where j: "j = Suc j'" using Cons.prems(2) by (cases j) auto
    then have j': "j' < length logs1" using Cons.prems(3) continued(6) by simp
    show ?thesis
    proof (cases i)
      case 0
      from for_comments_ids[OF continued(3)] have "fst ` set handled \<subseteq> seen1" by auto
      moreover from monitor_seen[OF continued(5)] j'
      have "fst ` set (logs1 ! j') \<inter> seen1 = {}" by simp
      ultimately show ?thesis using 0 j continued(6) by auto
    next
      case (Suc i')
      then have "i' < j'" using Cons.prems(2) j by simp
      from Cons.IH[OF continued(5) this j'] show ?thesis using Suc j continued(6) by simp
    qed
  qed
qed

lemma monitor_fetched_seen:
  "monitor ul st seen envs = (logs, seen', Exhausted) \<Longrightarrow> env \<in> set envs \<Longrightarrow>
   fetch env = Inr sub \<Longrightarrow> comment_id ` set (sub_comments sub) \<subseteq> seen'"
proof (induction envs arbitrary: seen logs seen')
  case Nil
  then show ?case by simp
next
  case (Cons env1 envs)
  from Cons.prems(1) show ?case
  proof (cases rule: monitor_step)
    case (continued sub1 new handled seen1 logs1)
    from monitor_seen[OF continued(5)] have grow: "seen1 \<subseteq> seen'" by auto
    show ?thesis
    proof (cases "env = env1")
      case True
      then have "sub1 = sub" using continued(1) Cons.prems(3) by simp
      with get_new_comments_all[of sub seen new] continued(1,2) for_comments_ids[OF continued(3)]
      have "comment_id ` set (sub_comments sub) \<subseteq> seen1" by auto
      then show ?thesis using grow by blast
    next
      case False
      then have "env \<in> set envs" using Cons.prems(2) by simp
      from Cons.IH[OF continued(5) this Cons.prems(3)] show ?thesis .
    qed
  qed simp_all
qed

lemma sample_no_keyword: "\<not> keyword_detected ul default_settings ''hello there''"
  by (simp add: keyword_detected_def default_settings_def default_keywords_def lower_hello
      py_in_def sublist_code)

lemma take_sample: "take_chars 80 ''hello there'' = ''hello there''"
  by (simp add: is_continuation_def)

lemma handle_sample:
  "handle_comment ul default_settings no_device 50 sample_comment =
     ([Print (NewComment ''alice'' ''hello there''),
       Print (PostScore 50 (Fin (5404319552844596 / 2 ^ 53))),
       Print NoDevices], None)"
  by (simp add: handle_comment_def sample_comment_def select_multiplier_def sample_no_keyword
      take_sample or_1_def calc_default_50 send_vibration_def no_device_def)

lemma handle_sample_broken:
  "handle_comment ul default_settings broken_device 50 sample_comment =
     ([Print (NewComment ''alice'' ''hello there''),
       Print (PostScore 50 (Fin (5404319552844596 / 2 ^ 53))),
       ActuatorCommand (Fin (5404319552844596 / 2 ^ 53))], Some ExternalError)"
  by (simp add: handle_comment_def sample_comment_def select_multiplier_def sample_no_keyword
      take_sample or_1_def calc_default_50 send_vibration_def broken_device_def)

lemma monitor_sample_twice:
  "monitor ul default_settings {} [sample_pass, sample_pass] =
     ([[(''c1'',
         [Print (NewComment ''alice'' ''hello there''),
          Print (PostScore 50 (Fin (5404319552844596 / 2 ^ 53))),
          Print NoDevices])],
       []],
      {''c1''}, Exhausted)"
proof -
  have c: "comment_id sample_comment = ''c1''" by (simp add: sample_comment_def)
  show ?thesis
    by (simp add: sample_pass_def get_new_comments_def c handle_sample)
qed

text \<open>
  Claim C5, as the code has it. An id enters \<open>seen_comment_ids\<close> when the \<open>for\<close>
  loop reaches its comment, before the comment is classified. In a run of the loop from
  the seen-set \<open>seen\<close>: the seen-set only grows, and keeps growing when the run goes
  on; it is the starting set together with the ids of the comments the loop reached; no
  comment whose id was in the set at the start is handled; no id handled in one pass is
  handled in a later pass; and while the loop is still going, every id that a refresh
  returned is in the seen-set. (When an exception cuts a pass short, the comments after
  the failing one are never reached: their ids stay out of the set, and the loop has
  ended.)
\<close>

theorem C5_dedup:
  assumes "monitor ul st seen envs = (logs, seen', r)"
  shows "seen \<subseteq> seen' \<and>
    seen' = seen \<union> (\<Union>l\<in>set logs. fst ` set l) \<and>
    (\<forall>l\<in>set logs. fst ` set l \<inter> seen = {}) \<and>
    (\<forall>i j. i < j \<and> j < length logs \<longrightarrow> fst ` set (logs ! i) \<inter> fst ` set (logs ! j) = {}) \<and>
    (r = Exhausted \<longrightarrow>
       (\<forall>env\<in>set envs. \<forall>sub. fetch env = Inr sub \<longrightarrow>
          comment_id ` set (sub_comments sub) \<subseteq> seen')) \<and>
    (\<forall>later logs2 seen2 r2.
       monitor ul st seen (envs @ later) = (logs2, seen2, r2) \<longrightarrow> seen' \<subseteq> seen2)"
proof -
  note s = monitor_seen[OF assms]
  have 1: "seen \<subseteq> seen'" using s by blast
  have 4: "\<forall>i j. i < j \<and> j < length logs \<longrightarrow> fst ` set (logs ! i) \<inter> fst ` set (logs ! j) = {}"
    using monitor_later_disjoint[OF assms] by blast
  have 5: "r = Exhausted \<longrightarrow>
       (\<forall>env\<in>set envs. \<forall>sub. fetch env = Inr sub \<longrightarrow>
          comment_id ` set (sub_comments sub) \<subseteq> seen')"
    using monitor_fetched_seen assms by blast
  have 6: "seen' \<subseteq> seen2" if m: "monitor ul st seen (envs @ later) = (logs2, seen2, r2)"
    for later logs2 seen2 r2
  proof (cases r)
    case (Threw e)
    from monitor_Threw_append[OF assms[unfolded Threw], of later] m show ?thesis by simp
  next
    case Exhausted
    obtain l3 s3 r3 where n: "monitor ul st seen' later = (l3, s3, r3)"
      by (cases "monitor ul st seen' later") auto
    from monitor_Exhausted_append[OF assms[unfolded Exhausted] n] m have "seen2 = s3" by simp
    then show ?thesis using monitor_seen[OF n] by blast
  qed
  show ?thesis
  proof (intro conjI)
    show "seen \<subseteq> seen'" by (rule 1)
    show "seen' = seen \<union> (\<Union>l\<in>set logs. fst ` set l)" using s by (rule conjunct1)
    show "\<forall>l\<in>set logs. fst ` set l \<inter> seen = {}" using s by (rule conjunct2)
    show "\<forall>i j. i < j \<and> j < length logs \<longrightarrow>
        fst ` set (logs ! i) \<inter> fst ` set (logs ! j) = {}" by (rule 4)
    show "r = Exhausted \<longrightarrow>
       (\<forall>env\<in>set envs. \<forall>sub. fetch env = Inr sub \<longrightarrow>
          comment_id ` set (sub_comments sub) \<subseteq> seen')" by (rule 5)
    show "\<forall>later logs2 seen2 r2.
       monitor ul st seen (envs @ later) = (logs2, seen2, r2) \<longrightarrow> seen' \<subseteq> seen2"
      using 6 by blast
  qed
qed

theorem C5_dedup_witness:
  "\<forall>ul.
   monitor ul default_settings {} [sample_pass, sample_pass] =
     ([[(''c1'',
         [Print (NewComment ''alice'' ''hello there''),
          Print (PostScore 50 (Fin (5404319552844596 / 2 ^ 53))),
          Print NoDevices])],
       []],
      {''c1''}, Exhausted) \<and>
   fst ` set [(''c1'',
         [Print (NewComment ''alice'' ''hello there''),
          Print (PostScore 50 (Fin (5404319552844596 / 2 ^ 53))),
          Print NoDevices])] \<inter> fst ` set ([] :: (string \<times> event list) list) = {} \<and>
   comment_id ` set [sample_comment] \<subseteq> {''c1''}"
proof (intro allI)
  fix ul :: unicode_lower
  note t = C5_dedup[OF monitor_sample_twice[of ul]]
  note d = t[THEN conjunct2, THEN conjunct2, THEN conjunct2, THEN conjunct1, rule_format, of 0 1]
  note f = t[THEN conjunct2, THEN conjunct2, THEN conjunct2, THEN conjunct2, THEN conjunct1,
      rule_format, of sample_pass "\<lparr>sub_score = 50, sub_comments = [sample_comment]\<rparr>"]
  have 1: "fst ` set [(''c1'',
         [Print (NewComment ''alice'' ''hello there''),
          Print (PostScore 50 (Fin (5404319552844596 / 2 ^ 53))),
          Print NoDevices])] \<inter> fst ` set ([] :: (string \<times> event list) list) = {}"
    using d by simp
  have 2: "comment_id ` set [sample_comment] \<subseteq> {''c1''}"
    using f by (simp add: sample_pass_def)
  show "monitor ul default_settings {} [sample_pass, sample_pass] =
     ([[(''c1'',
         [Print (NewComment ''alice'' ''hello there''),
          Print (PostScore 50 (Fin (5404319552844596 / 2 ^ 53))),
          Print NoDevices])],
       []],
      {''c1''}, Exhausted) \<and>
   fst ` set [(''c1'',
         [Print (NewComment ''alice'' ''hello there''),
          Print (PostScore 50 (Fin (5404319552844596 / 2 ^ 53))),
          Print NoDevices])] \<inter> fst ` set ([] :: (string \<times> event list) list) = {} \<and>
   comment_id ` set [sample_comment] \<subseteq> {''c1''}"
    using monitor_sample_twice[of ul] 1 2 by (intro conjI)
qed

lemma monitor_raising_pass:
  "monitor ul default_settings {} (raising_pass # later) =
     ([[(''c1'',
         [Print (NewComment ''alice'' ''hello there''),
          Print (PostScore 50 (Fin (5404319552844596 / 2 ^ 53))),
          ActuatorCommand (Fin (5404319552844596 / 2 ^ 53))])]],
      {''c1''}, Threw ExternalError)"
proof -
  have c: "comment_id sample_comment = ''c1''" by (simp add: sample_comment_def)
  show ?thesis
    by (simp add: raising_pass_def get_new_comments_def c handle_sample_broken)
qed

lemma main_loop_threw:
  assumes "monitor ul st {} envs = (logs, seen, Threw e)" "connect_and_scan env = (evs, None)"
    "title env = Inr t"
  shows "main ul st env envs =
    \<lparr>before_loop = evs @ banner st t, cycles = logs, after_loop = fst (shut_down env e),
     outcome = snd (shut_down env e), seen_comment_ids = seen\<rparr>"
  using assms by (simp add: main_def split: prod.splits)

lemma shut_down_disconnects: "ClientDisconnect \<in> set (fst (shut_down env e))"
  by (simp add: shut_down_def Let_def split: option.splits)

lemma shut_down_ends: "snd (shut_down env e) \<noteq> StillMonitoring"
  by (simp add: shut_down_def Let_def split: option.splits)

lemma shut_down_logs: "is_Exception e \<Longrightarrow> hd (fst (shut_down env e)) = Print (RuntimeError e)"
  by (simp add: shut_down_def Let_def split: option.splits)

lemma shut_down_clean:
  "is_Exception e \<Longrightarrow> disconnect env = None \<Longrightarrow>
   shut_down env e = ([Print (RuntimeError e), ClientDisconnect, Print BotShutDown], Returned)"
  by (simp add: shut_down_def Let_def)

lemma ok_session_connects:
  "connect_and_scan ok_session = ([ClientConnect, StartScanning, Sleep 1, StopScanning], None)"
  by (simp add: connect_and_scan_def ok_session_def)

lemma ok_session_title: "title ok_session = Inr ''A post''"
  by (simp add: ok_session_def)

lemma ok_session_shut_down:
  "shut_down ok_session ExternalError =
     ([Print (RuntimeError ExternalError), ClientDisconnect, Print BotShutDown], Returned)"
  by (rule shut_down_clean) (simp_all add: is_Exception_def ok_session_def)

lemma main_raising_pass:
  "main ul default_settings ok_session (raising_pass # later) =
     \<lparr>before_loop =
        [ClientConnect, StartScanning, Sleep 1, StopScanning] @ banner default_settings ''A post'',
      cycles =
        [[(''c1'',
           [Print (NewComment ''alice'' ''hello there''),
            Print (PostScore 50 (Fin (5404319552844596 / 2 ^ 53))),
            ActuatorCommand (Fin (5404319552844596 / 2 ^ 53))])]],
      after_loop = [Print (RuntimeError ExternalError), ClientDisconnect, Print BotShutDown],
      outcome = Returned, seen_comment_ids = {''c1''}\<rparr>"
  by (simp only: main_loop_threw[OF monitor_raising_pass ok_session_connects ok_session_title]
      ok_session_shut_down fst_conv snd_conv)

text \<open>
  Claim C5 as stated fails. The refresh of a pass returns the comments \<open>c1\<close> and
  \<open>c2\<close>; the actuator raises while \<open>c1\<close> is handled. The id \<open>c2\<close> was returned
  by the fetch and is not in \<open>seen_comment_ids\<close> when the run is over.
\<close>

theorem C5_dedup_counterexample:
  "fetch raising_pass = Inr \<lparr>sub_score = 50, sub_comments = [sample_comment, second_comment]\<rparr> \<and>
   comment_id second_comment = ''c2'' \<and>
   seen_comment_ids (main no_unicode default_settings ok_session [raising_pass]) = {''c1''} \<and>
   ''c2'' \<notin> seen_comment_ids (main no_unicode default_settings ok_session [raising_pass])"
proof -
  have 1: "fetch raising_pass =
      Inr \<lparr>sub_score = 50, sub_comments = [sample_comment, second_comment]\<rparr>"
    by (simp add: raising_pass_def)
  have 2: "comment_id second_comment = ''c2''" by (simp add: second_comment_def)
  have 3: "seen_comment_ids (main no_unicode default_settings ok_session [raising_pass]) = {''c1''}"
    by (simp add: main_raising_pass)
  have 4: "''c2'' \<notin> seen_comment_ids (main no_unicode default_settings ok_session [raising_pass])"
    by (simp add: main_raising_pass)
  from 1 2 3 4 show ?thesis by (intro conjI)
qed

subsection \<open>Exceptions in the loop, and shutting down\<close>

lemma for_comments_None_append:
  "for_comments ul st dev score seen pre = (hp, seen1, None) \<Longrightarrow>
   for_comments ul st dev score seen1 rest = (hr, seen2, r) \<Longrightarrow>
   for_comments ul st dev score seen (pre @ rest) = (hp @ hr, seen2, r)"
  by (induction pre arbitrary: seen hp)
     (auto simp: Let_def split: prod.splits option.splits)

lemma for_comments_raises:
  assumes "for_comments ul st dev score seen pre = (hp, seen1, None)"
    and "handle_comment ul st (dev (comment_id c)) score c = (ev, Some e)"
  shows "for_comments ul st dev score seen (pre @ c # post) =
    (hp @ [(comment_id c, ev)], insert (comment_id c) seen1, Some e)"
proof -
  have "for_comments ul st dev score seen1 (c # post) =
      ([(comment_id c, ev)], insert (comment_id c) seen1, Some e)"
    using assms(2) by simp
  from for_comments_None_append[OF assms(1) this] show ?thesis .
qed

lemma monitor_fetch_raises:
  "fetch cy = Inl e \<Longrightarrow> monitor ul st seen (cy # later) = ([[]], seen, Threw e)"
  by (simp add: get_new_comments_def)

lemma monitor_comment_raises:
  assumes "fetch cy = Inr sub"
    and "filter (\<lambda>c. comment_id c \<notin> seen) (sub_comments sub) = pre @ c # post"
    and "for_comments ul st (device_during cy) (sub_score sub) seen pre = (hp, seen1, None)"
    and "handle_comment ul st (device_during cy (comment_id c)) (sub_score sub) c = (ev, Some e)"
  shows "monitor ul st seen (cy # later) =
    ([hp @ [(comment_id c, ev)]], insert (comment_id c) seen1, Threw e)"
  using assms(1,2) for_comments_raises[OF assms(3,4), of post]
  by (simp add: get_new_comments_def)

lemma handle_comment_intensity_raises:
  "calculate_intensity st (or_1 score) (select_multiplier ul st (comment_body c)) = Inl e \<Longrightarrow>
   snd (handle_comment ul st penv score c) = Some e"
  by (simp add: handle_comment_def Let_def)

lemma handle_comment_vibration_raises:
  "calculate_intensity st (or_1 score) (select_multiplier ul st (comment_body c)) = Inr i \<Longrightarrow>
   snd (send_vibration penv i) = Some e \<Longrightarrow>
   snd (handle_comment ul st penv score c) = Some e"
  by (cases "send_vibration penv i") (simp add: handle_comment_def Let_def)

lemma send_vibration_raises:
  "devices penv = Actuator \<Longrightarrow>
   command_on penv = Some e \<or>
   command_on penv = None \<and> hold penv = Some e \<or>
   command_on penv = None \<and> hold penv = None \<and> command_off penv = Some e \<Longrightarrow>
   snd (send_vibration penv i) = Some e"
  by (auto simp: send_vibration_def)

text \<open>
  Claim C3, as the code has it. The only handler is around the whole loop. After passes
  that raised nothing, a pass whose refresh raises, or in which handling some new comment
  raises, is the last one: \<open>main\<close> ends with the passes so far, the failing comment's
  partial log the last entry, whatever comments were to follow in that pass (\<open>post\<close>)
  and whatever the later passes would have brought (\<open>later\<close>). Handling a comment
  raises when the intensity calculation raises and when one of the awaited calls of
  \<open>send_vibration\<close> raises; classifying a body, which is a string, has no failing
  step. If the exception is an \<open>Exception\<close> it is printed once as a runtime error. In
  every case the session is then disconnected, and \<open>main\<close> returns when the exception
  was caught and the disconnect succeeded.
\<close>

theorem C3_exception_ends_loop:
  assumes "connect_and_scan env = (evs, None)" "title env = Inr t"
    and "monitor ul st {} before = (logs, seen, Exhausted)"
  shows
   "(fetch cy = Inl e \<longrightarrow>
       main ul st env (before @ cy # later) =
         \<lparr>before_loop = evs @ banner st t, cycles = logs @ [[]],
          after_loop = fst (shut_down env e), outcome = snd (shut_down env e),
          seen_comment_ids = seen\<rparr>) \<and>
    (fetch cy = Inr sub \<and>
     filter (\<lambda>c. comment_id c \<notin> seen) (sub_comments sub) = pre @ c # post \<and>
     for_comments ul st (device_during cy) (sub_score sub) seen pre = (hp, seen1, None) \<and>
     handle_comment ul st (device_during cy (comment_id c)) (sub_score sub) c = (ev, Some e) \<longrightarrow>
       main ul st env (before @ cy # later) =
         \<lparr>before_loop = evs @ banner st t, cycles = logs @ [hp @ [(comment_id c, ev)]],
          after_loop = fst (shut_down env e), outcome = snd (shut_down env e),
          seen_comment_ids = insert (comment_id c) seen1\<rparr>) \<and>
    (calculate_intensity st (or_1 score) (select_multiplier ul st (comment_body c)) = Inl e \<longrightarrow>
       snd (handle_comment ul st penv score c) = Some e) \<and>
    (calculate_intensity st (or_1 score) (select_multiplier ul st (comment_body c)) = Inr i \<and>
     devices penv = Actuator \<and>
     (command_on penv = Some e \<or>
      command_on penv = None \<and> hold penv = Some e \<or>
      command_on penv = None \<and> hold penv = None \<and> command_off penv = Some e) \<longrightarrow>
       snd (handle_comment ul st penv score c) = Some e) \<and>
    ClientDisconnect \<in> set (fst (shut_down env e)) \<and>
    snd (shut_down env e) \<noteq> StillMonitoring \<and>
    (is_Exception e \<longrightarrow> hd (fst (shut_down env e)) = Print (RuntimeError e)) \<and>
    (is_Exception e \<and> disconnect env = None \<longrightarrow>
       shut_down env e =
         ([Print (RuntimeError e), ClientDisconnect, Print BotShutDown], Returned))"
proof (intro conjI impI)
  assume f: "fetch cy = Inl e"
  from monitor_Exhausted_append[OF assms(3) monitor_fetch_raises[OF f]]
  have "monitor ul st {} (before @ cy # later) = (logs @ [[]], seen, Threw e)" .
  from main_loop_threw[OF this assms(1,2)]
  show "main ul st env (before @ cy # later) =
         \<lparr>before_loop = evs @ banner st t, cycles = logs @ [[]],
          after_loop = fst (shut_down env e), outcome = snd (shut_down env e),
          seen_comment_ids = seen\<rparr>" .
next
  assume h: "fetch cy = Inr sub \<and>
     filter (\<lambda>c. comment_id c \<notin> seen) (sub_comments sub) = pre @ c # post \<and>
     for_comments ul st (device_during cy) (sub_score sub) seen pre = (hp, seen1, None) \<and>
     handle_comment ul st (device_during cy (comment_id c)) (sub_score sub) c = (ev, Some e)"
  then have h1: "fetch cy = Inr sub"
    and h2: "filter (\<lambda>c. comment_id c \<notin> seen) (sub_comments sub) = pre @ c # post"
    and h3: "for_comments ul st (device_during cy) (sub_score sub) seen pre = (hp, seen1, None)"
    and h4: "handle_comment ul st (device_during cy (comment_id c)) (sub_score sub) c =
      (ev, Some e)"
    by simp_all
  from monitor_Exhausted_append[OF assms(3) monitor_comment_raises[OF h1 h2 h3 h4]]
  have "monitor ul st {} (before @ cy # later) =
      (logs @ [hp @ [(comment_id c, ev)]], insert (comment_id c) seen1, Threw e)" .
  from main_loop_threw[OF this assms(1,2)]
  show "main ul st env (before @ cy # later) =
         \<lparr>before_loop = evs @ banner st t, cycles = logs @ [hp @ [(comment_id c, ev)]],
          after_loop = fst (shut_down env e), outcome = snd (shut_down env e),
          seen_comment_ids = insert (comment_id c) seen1\<rparr>" .
next
  assume "calculate_intensity st (or_1 score) (select_multiplier ul st (comment_body c)) = Inl e"
  then show "snd (handle_comment ul st penv score c) = Some e"
    by (rule handle_comment_intensity_raises)
next
  assume a: "calculate_intensity st (or_1 score) (select_multiplier ul st (comment_body c)) = Inr i \<and>
     devices penv = Actuator \<and>
     (command_on penv = Some e \<or>
      command_on penv = None \<and> hold penv = Some e \<or>
      command_on penv = None \<and> hold penv = None \<and> command_off penv = Some e)"
  then have "snd (send_vibration penv i) = Some e"
    using send_vibration_raises[of penv e i] by blast
  with a show "snd (handle_comment ul st penv score c) = Some e"
    using handle_comment_vibration_raises by blast
next
  show "ClientDisconnect \<in> set (fst (shut_down env e))" by (rule shut_down_disconnects)
next
  show "snd (shut_down env e) \<noteq> StillMonitoring" by (rule shut_down_ends)
next
  assume "is_Exception e"
  then show "hd (fst (shut_down env e)) = Print (RuntimeError e)" by (rule shut_down_logs)
next
  assume "is_Exception e \<and> disconnect env = None"
  then show "shut_down env e =
         ([Print (RuntimeError e), ClientDisconnect, Print BotShutDown], Returned)"
    using shut_down_clean by blast
qed

lemma main_failing_pass:
  "main ul default_settings ok_session (failing_pass # later) =
     \<lparr>before_loop =
        [ClientConnect, StartScanning, Sleep 1, StopScanning] @ banner default_settings ''A post'',
      cycles = [[]],
      after_loop = [Print (RuntimeError ExternalError), ClientDisconnect, Print BotShutDown],
      outcome = Returned, seen_comment_ids = {}\<rparr>"
proof -
  have m: "monitor ul default_settings {} (failing_pass # later) = ([[]], {}, Threw ExternalError)"
    by (simp add: failing_pass_def get_new_comments_def)
  show ?thesis
    by (simp only: main_loop_threw[OF m ok_session_connects ok_session_title]
        ok_session_shut_down fst_conv snd_conv)
qed

theorem C3_exception_ends_loop_witness:
  "\<forall>ul.
   main ul default_settings ok_session [raising_pass, sample_pass] =
     \<lparr>before_loop =
        [ClientConnect, StartScanning, Sleep 1, StopScanning] @ banner default_settings ''A post'',
      cycles =
        [[(''c1'',
           [Print (NewComment ''alice'' ''hello there''),
            Print (PostScore 50 (Fin (5404319552844596 / 2 ^ 53))),
            ActuatorCommand (Fin (5404319552844596 / 2 ^ 53))])]],
      after_loop = [Print (RuntimeError ExternalError), ClientDisconnect, Print BotShutDown],
      outcome = Returned, seen_comment_ids = {''c1''}\<rparr> \<and>
   main ul default_settings ok_session [failing_pass, sample_pass] =
     \<lparr>before_loop =
        [ClientConnect, StartScanning, Sleep 1, StopScanning] @ banner default_settings ''A post'',
      cycles = [[]],
      after_loop = [Print (RuntimeError ExternalError), ClientDisconnect, Print BotShutDown],
      outcome = Returned, seen_comment_ids = {}\<rparr> \<and>
   snd (handle_comment ul (default_settings\<lparr>MAX_UPVOTES := 0\<rparr>) no_device 50 sample_comment) =
     Some ZeroDivisionError \<and>
   snd (handle_comment ul default_settings
         \<lparr>devices = Actuator, command_on = None, hold = None, command_off = Some ExternalError\<rparr>
         50 sample_comment) = Some ExternalError"
proof (intro allI)
  fix ul :: unicode_lower
  have nil: "monitor ul default_settings {} [] = ([], {}, Exhausted)" by simp
  have sd: "is_Exception ExternalError \<and> disconnect ok_session = None"
    by (simp add: is_Exception_def ok_session_def)
  note t = C3_exception_ends_loop[OF ok_session_connects ok_session_title nil]
  have h: "fetch raising_pass =
        Inr \<lparr>sub_score = 50, sub_comments = [sample_comment, second_comment]\<rparr> \<and>
      filter (\<lambda>c. comment_id c \<notin> {})
        (sub_comments \<lparr>sub_score = 50, sub_comments = [sample_comment, second_comment]\<rparr>) =
        [] @ sample_comment # [second_comment] \<and>
      for_comments ul default_settings (device_during raising_pass)
        (sub_score \<lparr>sub_score = 50, sub_comments = [sample_comment, second_comment]\<rparr>) {} [] =
        ([], {}, None) \<and>
      handle_comment ul default_settings (device_during raising_pass (comment_id sample_comment))
        (sub_score \<lparr>sub_score = 50, sub_comments = [sample_comment, second_comment]\<rparr>)
        sample_comment =
        ([Print (NewComment ''alice'' ''hello there''),
          Print (PostScore 50 (Fin (5404319552844596 / 2 ^ 53))),
          ActuatorCommand (Fin (5404319552844596 / 2 ^ 53))], Some ExternalError)"
    by (simp add: raising_pass_def handle_sample_broken)
  have c: "comment_id sample_comment = ''c1''" by (simp add: sample_comment_def)
  from t[where cy = raising_pass and e = ExternalError and later = "[sample_pass]",
      THEN conjunct2, THEN conjunct1, rule_format, OF h]
    t[where e = ExternalError, THEN conjunct2, THEN conjunct2, THEN conjunct2, THEN conjunct2,
      THEN conjunct2, THEN conjunct2, THEN conjunct2, rule_format, OF sd]
  have 1: "main ul default_settings ok_session [raising_pass, sample_pass] =
     \<lparr>before_loop =
        [ClientConnect, StartScanning, Sleep 1, StopScanning] @ banner default_settings ''A post'',
      cycles =
        [[(''c1'',
           [Print (NewComment ''alice'' ''hello there''),
            Print (PostScore 50 (Fin (5404319552844596 / 2 ^ 53))),
            ActuatorCommand (Fin (5404319552844596 / 2 ^ 53))])]],
      after_loop = [Print (RuntimeError ExternalError), ClientDisconnect, Print BotShutDown],
      outcome = Returned, seen_comment_ids = {''c1''}\<rparr>"
    by (simp add: c)
  have f: "fetch failing_pass = Inl ExternalError" by (simp add: failing_pass_def)
  from t[where cy = failing_pass and e = ExternalError and later = "[sample_pass]",
      THEN conjunct1, rule_format, OF f]
    t[where e = ExternalError, THEN conjunct2, THEN conjunct2, THEN conjunct2, THEN conjunct2,
      THEN conjunct2, THEN conjunct2, THEN conjunct2, rule_format, OF sd]
  have 2: "main ul default_settings ok_session [failing_pass, sample_pass] =
     \<lparr>before_loop =
        [ClientConnect, StartScanning, Sleep 1, StopScanning] @ banner default_settings ''A post'',
      cycles = [[]],
      after_loop = [Print (RuntimeError ExternalError), ClientDisconnect, Print BotShutDown],
      outcome = Returned, seen_comment_ids = {}\<rparr>"
    by simp
  have z: "calculate_intensity (default_settings\<lparr>MAX_UPVOTES := 0\<rparr>) (or_1 50)
      (select_multiplier ul (default_settings\<lparr>MAX_UPVOTES := 0\<rparr>) (comment_body sample_comment)) =
      Inl ZeroDivisionError"
    by (simp add: calculate_intensity_def int_truediv_def)
  have nil0: "monitor ul (default_settings\<lparr>MAX_UPVOTES := 0\<rparr>) {} [] = ([], {}, Exhausted)"
    by simp
  note 3 = C3_exception_ends_loop[OF ok_session_connects ok_session_title nil0, THEN conjunct2,
      THEN conjunct2, THEN conjunct1, rule_format, OF z, of no_device]
  have a: "calculate_intensity default_settings (or_1 50)
        (select_multiplier ul default_settings (comment_body sample_comment)) =
        Inr (Fin (5404319552844596 / 2 ^ 53)) \<and>
      devices \<lparr>devices = Actuator, command_on = None, hold = None,
        command_off = Some ExternalError\<rparr> = Actuator \<and>
      (command_on \<lparr>devices = Actuator, command_on = None, hold = None,
         command_off = Some ExternalError\<rparr> = Some ExternalError \<or>
       command_on \<lparr>devices = Actuator, command_on = None, hold = None,
         command_off = Some ExternalError\<rparr> = None \<and>
       hold \<lparr>devices = Actuator, command_on = None, hold = None,
         command_off = Some ExternalError\<rparr> = Some ExternalError \<or>
       command_on \<lparr>devices = Actuator, command_on = None, hold = None,
         command_off = Some ExternalError\<rparr> = None \<and>
       hold \<lparr>devices = Actuator, command_on = None, hold = None,
         command_off = Some ExternalError\<rparr> = None \<and>
       command_off \<lparr>devices = Actuator, command_on = None, hold = None,
         command_off = Some ExternalError\<rparr> = Some ExternalError)"
    by (simp add: sample_comment_def select_multiplier_def sample_no_keyword or_1_def
        calc_default_50)
  note 4 = t[THEN conjunct2, THEN conjunct2, THEN conjunct2, THEN conjunct1, rule_format, OF a]
  from 1 2 3 4
  show "main ul default_settings ok_session [raising_pass, sample_pass] =
     \<lparr>before_loop =
        [ClientConnect, StartScanning, Sleep 1, StopScanning] @ banner default_settings ''A post'',
      cycles =
        [[(''c1'',
           [Print (NewComment ''alice'' ''hello there''),
            Print (PostScore 50 (Fin (5404319552844596 / 2 ^ 53))),
            ActuatorCommand (Fin (5404319552844596 / 2 ^ 53))])]],
      after_loop = [Print (RuntimeError ExternalError), ClientDisconnect, Print BotShutDown],
      outcome = Returned, seen_comment_ids = {''c1''}\<rparr> \<and>
   main ul default_settings ok_session [failing_pass, sample_pass] =
     \<lparr>before_loop =
        [ClientConnect, StartScanning, Sleep 1, StopScanning] @ banner default_settings ''A post'',
      cycles = [[]],
      after_loop = [Print (RuntimeError ExternalError), ClientDisconnect, Print BotShutDown],
      outcome = Returned, seen_comment_ids = {}\<rparr> \<and>
   snd (handle_comment ul (default_settings\<lparr>MAX_UPVOTES := 0\<rparr>) no_device 50 sample_comment) =
     Some ZeroDivisionError \<and>
   snd (handle_comment ul default_settings
         \<lparr>devices = Actuator, command_on = None, hold = None, command_off = Some ExternalError\<rparr>
         50 sample_comment) = Some ExternalError"
    by (intro conjI)
qed

text \<open>
  Claim C3 as stated fails. The actuator raises while the first of the two new comments
  of a pass is handled: the second comment is not handled, the next pass, whose one
  comment would have been new, is never run, and \<open>main\<close> has returned, with the
  runtime error printed and the session disconnected. Likewise when the refresh of the
  first pass raises: the run has returned after that one pass.
\<close>

theorem C3_exception_ends_loop_counterexample:
  "cycles (main no_unicode default_settings ok_session [raising_pass, sample_pass]) =
     [[(''c1'',
        [Print (NewComment ''alice'' ''hello there''),
         Print (PostScore 50 (Fin (5404319552844596 / 2 ^ 53))),
         ActuatorCommand (Fin (5404319552844596 / 2 ^ 53))])]] \<and>
   seen_comment_ids (main no_unicode default_settings ok_session [raising_pass, sample_pass]) =
     {''c1''} \<and>
   after_loop (main no_unicode default_settings ok_session [raising_pass, sample_pass]) =
     [Print (RuntimeError ExternalError), ClientDisconnect, Print BotShutDown] \<and>
   outcome (main no_unicode default_settings ok_session [raising_pass, sample_pass]) = Returned \<and>
   cycles (main no_unicode default_settings ok_session [failing_pass, sample_pass]) = [[]] \<and>
   seen_comment_ids (main no_unicode default_settings ok_session [failing_pass, sample_pass]) = {} \<and>
   after_loop (main no_unicode default_settings ok_session [failing_pass, sample_pass]) =
     [Print (RuntimeError ExternalError), ClientDisconnect, Print BotShutDown] \<and>
   outcome (main no_unicode default_settings ok_session [failing_pass, sample_pass]) = Returned"
  by (simp add: main_raising_pass main_failing_pass)

text \<open>
  Claim C4 fails on the code. When \<open>client.connect\<close> has succeeded and
  \<open>start_scanning\<close> raises, \<open>main\<close> prints that it could not connect and returns:
  no disconnect is attempted. When the calls of the first \<open>try\<close> have succeeded
  and reading \<open>submission.title\<close> raises, the exception propagates out of \<open>main\<close>,
  again with no disconnect. Only the exits of the loop run the \<open>finally\<close> block.
\<close>

theorem C4_no_disconnect:
  "main ul default_settings (ok_session\<lparr>start_scanning := Some ExternalError\<rparr>) [sample_pass] =
     \<lparr>before_loop = [ClientConnect, StartScanning, Print (CouldNotConnect ExternalError)],
      cycles = [], after_loop = [], outcome = Returned, seen_comment_ids = {}\<rparr> \<and>
   main ul default_settings (ok_session\<lparr>title := Inl ExternalError\<rparr>) [sample_pass] =
     \<lparr>before_loop = [ClientConnect, StartScanning, Sleep 1, StopScanning],
      cycles = [], after_loop = [], outcome = Propagated ExternalError, seen_comment_ids = {}\<rparr>"
  by (simp add: main_def connect_and_scan_def ok_session_def is_Exception_def)

end
